theory Spec2Isabelle
  imports Main "HOL-Library.AList"
begin

section \<open>JavaScript strings and numbers\<close>

text \<open>
  A JavaScript string is a sequence of UTF-16 code units. It is modelled by an Isabelle
  \<^typ>\<open>string\<close>, each \<^typ>\<open>char\<close> read as a code unit below 256 (the Latin-1 range);
  \<open>null\<close> and \<open>undefined\<close> are \<^term>\<open>None\<close> of an option type. A number that may be
  \<open>NaN\<close> is an \<^typ>\<open>int option\<close>: every number of this program is an integer far below
  \<open>2^53\<close>, so its double arithmetic is exact.
\<close>

definition isWhiteSpace :: "char \<Rightarrow> bool" where
  "isWhiteSpace c = (of_char c \<in> {9, 10, 11, 12, 13, 32, 160 :: nat})"

definition trim :: "string \<Rightarrow> string" where
  "trim s = rev (dropWhile isWhiteSpace (rev (dropWhile isWhiteSpace s)))"

definition isDigit :: "char \<Rightarrow> bool" where
  "isDigit c = (48 \<le> (of_char c :: nat) \<and> (of_char c :: nat) \<le> 57)"

definition digitValue :: "char \<Rightarrow> int" where
  "digitValue c = int (of_char c) - 48"

definition isHexDigit :: "char \<Rightarrow> bool" where
  "isHexDigit c = (isDigit c \<or> (65 \<le> (of_char c :: nat) \<and> (of_char c :: nat) \<le> 70)
     \<or> (97 \<le> (of_char c :: nat) \<and> (of_char c :: nat) \<le> 102))"

definition hexValue :: "char \<Rightarrow> int" where
  "hexValue c = (if isDigit c then digitValue c
     else if (of_char c :: nat) \<le> 70 then int (of_char c) - 55 else int (of_char c) - 87)"

text \<open>The value of a digit string, most significant digit first.\<close>

definition decimal :: "string \<Rightarrow> int" where
  "decimal s = foldl (\<lambda>n c. 10 * n + digitValue c) 0 s"

definition hexadecimal :: "string \<Rightarrow> int" where
  "hexadecimal s = foldl (\<lambda>n c. 16 * n + hexValue c) 0 s"

text \<open>
  \<open>parseInt(s)\<close> with no radix: leading white space is skipped, a sign is read, a prefix
  \<open>0x\<close> or \<open>0X\<close> selects radix 16, and the longest run of digits is the value; no digit
  gives \<open>NaN\<close>.
\<close>

definition parseInt :: "string \<Rightarrow> int option" where
  "parseInt s =
     (let s1 = dropWhile isWhiteSpace s;
          sign = (if take 1 s1 = ''-'' then - 1 else 1 :: int);
          s2 = (if take 1 s1 = ''-'' \<or> take 1 s1 = ''+'' then drop 1 s1 else s1)
      in if take 2 s2 = ''0x'' \<or> take 2 s2 = ''0X''
         then (let z = takeWhile isHexDigit (drop 2 s2)
               in if z = [] then None else Some (sign * hexadecimal z))
         else (let z = takeWhile isDigit s2
               in if z = [] then None else Some (sign * decimal z)))"

section \<open>Dates\<close>

text \<open>
  A \<open>Date\<close> is its time value: milliseconds since the epoch, or \<open>NaN\<close> for an invalid
  date. \<open>Date.UTC\<close> follows ECMAScript: a year from 0 to 99 means 1900 + year, a month
  outside 0..11 carries into the year, day and time fields are added as they are, and the
  result is clipped to \<open>\<plusminus>8.64e15\<close>.
\<close>

definition msPerDay :: int where
  "msPerDay = 86400000"

definition DayFromYear :: "int \<Rightarrow> int" where
  "DayFromYear y = 365 * (y - 1970) + (y - 1969) div 4 - (y - 1901) div 100 + (y - 1601) div 400"

definition InLeapYear :: "int \<Rightarrow> bool" where
  "InLeapYear y = (y mod 4 = 0 \<and> (y mod 100 \<noteq> 0 \<or> y mod 400 = 0))"

definition monthStart :: "int \<Rightarrow> bool \<Rightarrow> int" where
  "monthStart mn leap =
     [0, 31, 59, 90, 120, 151, 181, 212, 243, 273, 304, 334] ! nat mn
       + (if leap \<and> 2 \<le> mn then 1 else 0)"

definition MakeDay :: "int \<Rightarrow> int \<Rightarrow> int \<Rightarrow> int" where
  "MakeDay year month date =
     (let ym = year + month div 12; mn = month mod 12
      in DayFromYear ym + monthStart mn (InLeapYear ym) + date - 1)"

definition MakeTime :: "int \<Rightarrow> int \<Rightarrow> int \<Rightarrow> int \<Rightarrow> int" where
  "MakeTime hour minute sec ms = hour * 3600000 + minute * 60000 + sec * 1000 + ms"

definition MakeDate :: "int \<Rightarrow> int \<Rightarrow> int" where
  "MakeDate day time = day * msPerDay + time"

definition MakeFullYear :: "int \<Rightarrow> int" where
  "MakeFullYear y = (if 0 \<le> y \<and> y \<le> 99 then 1900 + y else y)"

definition TimeClip :: "int \<Rightarrow> int option" where
  "TimeClip t = (if \<bar>t\<bar> > 8640000000000000 then None else Some t)"

text \<open>The time value of \<open>Date.UTC\<close> before clipping, for arguments that are numbers.\<close>

definition utcMillis :: "int \<Rightarrow> int \<Rightarrow> int \<Rightarrow> int \<Rightarrow> int \<Rightarrow> int \<Rightarrow> int" where
  "utcMillis year month day hour minute second =
     MakeDate (MakeDay (MakeFullYear year) month day) (MakeTime hour minute second 0)"

definition Date_UTC ::
  "int option \<Rightarrow> int option \<Rightarrow> int option \<Rightarrow> int option \<Rightarrow> int option \<Rightarrow> int option \<Rightarrow> int option" where
  "Date_UTC year month day hour minute second =
     (case (year, month, day, hour, minute, second) of
        (Some y, Some m, Some d, Some h, Some mi, Some s) \<Rightarrow> TimeClip (utcMillis y m d h mi s)
      | _ \<Rightarrow> None)"

text \<open>\<open>new Date(t)\<close> for a number \<open>t\<close>.\<close>

definition Date_new :: "int option \<Rightarrow> int option" where
  "Date_new t = (case t of None \<Rightarrow> None | Some v \<Rightarrow> TimeClip v)"

section \<open>The feed parser: timestamps\<close>

text \<open>
  The first match of \<open>/([+-])(\d{2})(\d{2})/\<close> anywhere in the string: the sign, the two
  hour digits and the two minute digits.
\<close>

fun tzMatch :: "string \<Rightarrow> (char \<times> string \<times> string) option" where
  "tzMatch [] = None"
| "tzMatch (c # cs) =
     (if (c = CHR ''+'' \<or> c = CHR ''-'') \<and> 4 \<le> length cs \<and> list_all isDigit (take 4 cs)
      then Some (c, take 2 cs, take 2 (drop 2 cs))
      else tzMatch cs)"

definition slice :: "string \<Rightarrow> nat \<Rightarrow> nat \<Rightarrow> string" where
  "slice s i j = take (j - i) (drop i s)"

text \<open>
  \<open>parseTimeStr\<close>, with the result of \<open>new Date().getTimezoneOffset()\<close> (the viewer's
  offset in minutes, positive west of Greenwich) as the parameter \<open>localOffset\<close>.
\<close>

definition parseTimeStr :: "int \<Rightarrow> string \<Rightarrow> int option" where
  "parseTimeStr localOffset str =
     (if str = [] then None
      else
        let digits = take 14 str;
            year = parseInt (slice digits 0 4);
            month = map_option (\<lambda>m. m - 1) (parseInt (slice digits 4 6));
            day = parseInt (slice digits 6 8);
            hour = parseInt (slice digits 8 10);
            minute = parseInt (slice digits 10 12);
            second = parseInt (slice digits 12 14);
            timezoneOffset =
              (case tzMatch str of
                 None \<Rightarrow> Some 0
               | Some (sg, hh, mm) \<Rightarrow>
                   (case (parseInt hh, parseInt mm) of
                      (Some hours, Some minutes) \<Rightarrow>
                        Some ((if sg = CHR ''+'' then 1 else - 1) * (hours * 60 + minutes))
                    | _ \<Rightarrow> None));
            utcDate = Date_UTC year month day hour minute second;
            adjustedTime =
              (case (utcDate, timezoneOffset) of
                 (Some u, Some tz) \<Rightarrow> Some (u - tz * 60000 + localOffset * 60000)
               | _ \<Rightarrow> None)
        in Date_new adjustedTime)"

section \<open>Objects used as dictionaries\<close>

text \<open>
  The program keeps its tables in plain objects created by \<open>{}\<close>. Such an object has its
  own properties, here an association list in creation order, and inherits the members of
  \<open>Object.prototype\<close>. Reading a key gives the own value, or the inherited member (a built-in
  function, or \<open>Object.prototype\<close> itself for \<open>__proto__\<close>: a truthy value that is no
  array), or \<open>undefined\<close>.
\<close>

datatype error = TypeError

datatype 'a jsval = Undefined | Value 'a | Builtin string

type_synonym 'a dict = "(string \<times> 'a) list"

definition objectPrototypeKeys :: "string list" where
  "objectPrototypeKeys =
     [''constructor'', ''__defineGetter__'', ''__defineSetter__'', ''hasOwnProperty'',
      ''__lookupGetter__'', ''__lookupSetter__'', ''isPrototypeOf'', ''propertyIsEnumerable'',
      ''toString'', ''valueOf'', ''__proto__'', ''toLocaleString'']"

definition getProp :: "'a dict \<Rightarrow> string \<Rightarrow> 'a jsval" where
  "getProp obj k =
     (case map_of obj k of
        Some v \<Rightarrow> Value v
      | None \<Rightarrow> if k \<in> set objectPrototypeKeys then Builtin k else Undefined)"

text \<open>
  \<open>obj[k] = v\<close> for a string or \<open>null\<close> \<open>v\<close>: an own property is created or overwritten,
  except at \<open>__proto__\<close>, where the inherited setter runs and creates none. (The setter
  ignores a string. Given \<open>null\<close> it detaches the prototype, which can happen to
  \<open>channelIdToIcon\<close> only; from then on that table reads \<open>undefined\<close> at the names of
  inherited members, and only there. A programme whose channel is such a name ends in the
  exception of \<open>pushProgramme\<close> below, so the icon read for it is never returned.)
\<close>

definition setProp :: "'a dict \<Rightarrow> string \<Rightarrow> 'a \<Rightarrow> 'a dict" where
  "setProp obj k v = (if k = ''__proto__'' then obj else AList.update k v obj)"

text \<open>The property key of a value that is a string or \<open>null\<close>.\<close>

definition keyOf :: "string option \<Rightarrow> string" where
  "keyOf v = (case v of None \<Rightarrow> ''null'' | Some s \<Rightarrow> s)"

text \<open>
  \<open>Object.keys\<close> enumerates the own keys with the array indices first, in ascending
  order, and then the other keys in creation order; \<open>Object_entries\<close> is this
  enumeration, each key with its value.
\<close>

definition isArrayIndex :: "string \<Rightarrow> bool" where
  "isArrayIndex k =
     (k \<noteq> [] \<and> list_all isDigit k \<and> (k = ''0'' \<or> hd k \<noteq> CHR ''0'') \<and> decimal k < 4294967295)"

definition Object_entries :: "'a dict \<Rightarrow> (string \<times> 'a) list" where
  "Object_entries obj =
     sort_key (\<lambda>e. decimal (fst e)) (filter (\<lambda>e. isArrayIndex (fst e)) obj)
       @ filter (\<lambda>e. \<not> isArrayIndex (fst e)) obj"

definition toLowerCase :: "string \<Rightarrow> string" where
  "toLowerCase s =
     map (\<lambda>c. let n = (of_char c :: nat)
              in if (65 \<le> n \<and> n \<le> 90) \<or> (192 \<le> n \<and> n \<le> 222 \<and> n \<noteq> 215)
                 then char_of (n + 32) else c) s"

section \<open>The feed parser\<close>

text \<open>
  The document that \<open>DOMParser\<close> returns is read through \<open>getElementsByTagName\<close> and
  \<open>getAttribute\<close> only. It is modelled by what these calls return: the \<open>channel\<close> and the
  \<open>programme\<close> elements in document order, an absent attribute or child being \<^term>\<open>None\<close>.
  Lines 966 to 1005 compute the descriptive fields of a programme from its child elements
  alone; every access there is guarded, nothing can throw, and no table is touched, so a
  programme element carries their result as \<open>pn_info\<close>.
\<close>

record icon_node =
  icon_src :: "string option"
  icon_text :: string

record channel_node =
  cn_id :: "string option"
  cn_display :: "string option"
  cn_icon :: "icon_node option"

record prog_info =
  title :: string
  subtitle :: string
  desc :: string
  rating :: string
  season :: "int option"
  episodeNumber :: "int option"

record programme_node =
  pn_channel :: "string option"
  pn_start :: "string option"
  pn_stop :: "string option"
  pn_info :: prog_info

record xml_doc =
  channelNodes :: "channel_node list"
  programmes :: "programme_node list"

record programme = prog_info +
  start :: int
  end' :: int
  icon :: "string option"

definition iconSrcOf :: "icon_node option \<Rightarrow> string option" where
  "iconSrcOf iconNode =
     (case iconNode of
        None \<Rightarrow> None
      | Some n \<Rightarrow>
          (if icon_src n \<noteq> None \<and> icon_src n \<noteq> Some []
           then icon_src n
           else if icon_text n \<noteq> [] then Some (trim (icon_text n)) else None))"

text \<open>The loop over the channel elements: the tables \<open>channelIdToName\<close> and \<open>channelIdToIcon\<close>.\<close>

definition addChannel ::
  "(string option) dict \<times> (string option) dict \<Rightarrow> channel_node
     \<Rightarrow> (string option) dict \<times> (string option) dict" where
  "addChannel tables node =
     (let id' = cn_id node;
          displayName = (case cn_display node of Some t \<Rightarrow> Some (trim t) | None \<Rightarrow> id')
      in (setProp (fst tables) (keyOf id') displayName,
          setProp (snd tables) (keyOf id') (iconSrcOf (cn_icon node))))"

definition channelTables ::
  "channel_node list \<Rightarrow> (string option) dict \<times> (string option) dict" where
  "channelTables nodes = foldl addChannel ([], []) nodes"

text \<open>
  \<open>if (!obj[k]) obj[k] = []; obj[k].push(x)\<close>: an inherited member at \<open>k\<close> is truthy and
  has no \<open>push\<close>, so the call throws.
\<close>

definition pushProgramme ::
  "(programme list) dict \<Rightarrow> string \<Rightarrow> programme \<Rightarrow> error + (programme list) dict" where
  "pushProgramme obj k x =
     (case getProp obj k of
        Undefined \<Rightarrow> Inr (AList.update k [x] obj)
      | Value xs \<Rightarrow> Inr (AList.update k (xs @ [x]) obj)
      | Builtin b \<Rightarrow> Inl TypeError)"

definition orEmpty :: "string option \<Rightarrow> string" where
  "orEmpty a = (case a of None \<Rightarrow> [] | Some s \<Rightarrow> s)"

text \<open>
  \<open>channelIdToName[channelId] || channelId\<close> as a property key. When the read gives an
  inherited member, \<open>channelId\<close> names that member, and the second push of the loop body
  throws whatever key the first one used: \<^term>\<open>None\<close> stands for this case.
\<close>

definition displayNameKey :: "(string option) dict \<Rightarrow> string option \<Rightarrow> string option" where
  "displayNameKey channelIdToName channelId =
     (case getProp channelIdToName (keyOf channelId) of
        Builtin b \<Rightarrow> None
      | Value (Some s) \<Rightarrow> Some (if s = [] then keyOf channelId else s)
      | _ \<Rightarrow> Some (keyOf channelId))"

definition iconOf :: "(string option) dict \<Rightarrow> string option \<Rightarrow> string option" where
  "iconOf channelIdToIcon channelId =
     (case getProp channelIdToIcon (keyOf channelId) of
        Value (Some s) \<Rightarrow> if s = [] then None else Some s
      | _ \<Rightarrow> None)"

definition mkProgramme :: "prog_info \<Rightarrow> int \<Rightarrow> int \<Rightarrow> string option \<Rightarrow> programme" where
  "mkProgramme info st en ic = prog_info.extend info (programme.fields st en ic)"

text \<open>One pass of the loop over the programme elements.\<close>

definition addProgramme ::
  "int \<Rightarrow> (string option) dict \<times> (string option) dict
     \<Rightarrow> (programme list) dict \<times> (programme list) dict \<Rightarrow> programme_node
     \<Rightarrow> error + (programme list) dict \<times> (programme list) dict" where
  "addProgramme localOffset tables acc p =
     (let channelId = pn_channel p;
          start = parseTimeStr localOffset (orEmpty (pn_start p));
          end' = parseTimeStr localOffset (orEmpty (pn_stop p))
      in case (start, end') of
           (Some st, Some en) \<Rightarrow>
             (case displayNameKey (fst tables) channelId of
                None \<Rightarrow> Inl TypeError
              | Some displayName \<Rightarrow>
                  (let prog = mkProgramme (pn_info p) st en (iconOf (snd tables) channelId)
                   in case pushProgramme (fst acc) displayName prog of
                        Inl e \<Rightarrow> Inl e
                      | Inr schedule \<Rightarrow>
                          (case pushProgramme (snd acc) (keyOf channelId) prog of
                             Inl e \<Rightarrow> Inl e
                           | Inr scheduleByTvgId \<Rightarrow> Inr (schedule, scheduleByTvgId))))
         | _ \<Rightarrow> Inr acc)"

fun addProgrammes ::
  "int \<Rightarrow> (string option) dict \<times> (string option) dict
     \<Rightarrow> (programme list) dict \<times> (programme list) dict \<Rightarrow> programme_node list
     \<Rightarrow> error + (programme list) dict \<times> (programme list) dict" where
  "addProgrammes localOffset tables acc [] = Inr acc"
| "addProgrammes localOffset tables acc (p # ps) =
     (case addProgramme localOffset tables acc p of
        Inl e \<Rightarrow> Inl e
      | Inr acc' \<Rightarrow> addProgrammes localOffset tables acc' ps)"

text \<open>\<open>list.sort((a, b) => a.start - b.start)\<close>: a stable sort by start.\<close>

definition sortByStart :: "(programme list) dict \<Rightarrow> (programme list) dict" where
  "sortByStart obj = map (\<lambda>e. (fst e, sort_key start (snd e))) obj"

text \<open>The parser on a document: \<open>schedule\<close> and \<open>scheduleByTvgId\<close>, or the exception thrown.\<close>

definition parseDocument ::
  "int \<Rightarrow> xml_doc \<Rightarrow> error + (programme list) dict \<times> (programme list) dict" where
  "parseDocument localOffset xmlDoc =
     (case addProgrammes localOffset (channelTables (channelNodes xmlDoc)) ([], [])
             (programmes xmlDoc) of
        Inl e \<Rightarrow> Inl e
      | Inr acc \<Rightarrow> Inr (sortByStart (fst acc), sortByStart (snd acc)))"

text \<open>
  \<open>parseEpgXml\<close>; \<open>parseFromString\<close> stands for the browser's
  \<open>new DOMParser().parseFromString(_, 'application/xml')\<close>, which returns a document for
  every string (an error document for text that is not well-formed).
\<close>

definition parseEpgXml ::
  "(string \<Rightarrow> xml_doc) \<Rightarrow> int \<Rightarrow> string
     \<Rightarrow> error + (programme list) dict \<times> (programme list) dict" where
  "parseEpgXml parseFromString localOffset xmlString =
     parseDocument localOffset (parseFromString xmlString)"

section \<open>The guide state and \<open>loadEpg\<close>\<close>

text \<open>
  \<open>epgScheduleNormalized\<close> is filled by \<open>epgScheduleNormalized[name.toLowerCase()] = list\<close>.
  At the key \<open>__proto__\<close> this assignment runs the inherited setter, which makes the array
  the prototype of the table and creates no own property. The table is therefore its own
  properties together with the array installed as its prototype, if any.
\<close>

record normalized_obj =
  own :: "(programme list) dict"
  protoArray :: "programme list option"

definition setNormalized :: "normalized_obj \<Rightarrow> string \<Rightarrow> programme list \<Rightarrow> normalized_obj" where
  "setNormalized obj k v =
     (if k = ''__proto__'' then obj\<lparr>protoArray := Some v\<rparr>
      else obj\<lparr>own := AList.update k v (own obj)\<rparr>)"

text \<open>The members of \<open>Array.prototype\<close>, as of ECMAScript 2023.\<close>

definition arrayPrototypeKeys :: "string list" where
  "arrayPrototypeKeys =
     [''at'', ''concat'', ''copyWithin'', ''entries'', ''every'', ''fill'', ''filter'', ''find'',
      ''findIndex'', ''findLast'', ''findLastIndex'', ''flat'', ''flatMap'', ''forEach'',
      ''includes'', ''indexOf'', ''join'', ''keys'', ''lastIndexOf'', ''map'', ''pop'', ''push'',
      ''reduce'', ''reduceRight'', ''reverse'', ''shift'', ''slice'', ''some'', ''sort'', ''splice'',
      ''toReversed'', ''toSorted'', ''toSpliced'', ''unshift'', ''values'', ''with'']"

text \<open>
  Reading the table. Behind the own properties stands \<open>Object.prototype\<close>, or the installed
  array: its elements, its length (0 is falsy, as \<open>undefined\<close> is), the members of
  \<open>Array.prototype\<close> and of \<open>Object.prototype\<close>; \<open>__proto__\<close> then reads the array itself.
\<close>

definition getNormalized :: "normalized_obj \<Rightarrow> string \<Rightarrow> (programme list) jsval" where
  "getNormalized obj k =
     (case map_of (own obj) k of
        Some v \<Rightarrow> Value v
      | None \<Rightarrow>
          (case protoArray obj of
             None \<Rightarrow> if k \<in> set objectPrototypeKeys then Builtin k else Undefined
           | Some xs \<Rightarrow>
               if k = ''__proto__'' then Value xs
               else if isArrayIndex k \<and> decimal k < int (length xs) then Builtin k
               else if k = ''length'' then (if xs = [] then Undefined else Builtin k)
               else if k \<in> set arrayPrototypeKeys \<or> k \<in> set objectPrototypeKeys then Builtin k
               else Undefined))"

record guide_state =
  epgSchedule :: "(programme list) dict"
  epgScheduleNormalized :: normalized_obj
  epgScheduleByTvgId :: "(programme list) dict"

definition emptyState :: guide_state where
  "emptyState =
     \<lparr>epgSchedule = [], epgScheduleNormalized = \<lparr>own = [], protoArray = None\<rparr>,
      epgScheduleByTvgId = []\<rparr>"

text \<open>
  \<open>Object.keys(epgSchedule).forEach((name) => { epgScheduleNormalized[name.toLowerCase()] =
  epgSchedule[name]; })\<close>, starting from \<open>{}\<close>.
\<close>

definition normalizeSchedule :: "(programme list) dict \<Rightarrow> normalized_obj" where
  "normalizeSchedule schedule =
     foldl (\<lambda>acc e. setNormalized acc (toLowerCase (fst e)) (snd e))
       \<lparr>own = [], protoArray = None\<rparr> (Object_entries schedule)"

text \<open>
  A channel of the playlist, as \<open>/api/channels\<close> delivers it; \<open>tvgId\<close> may be missing.
\<close>

record channel =
  tvgId :: "string option"
  name :: string

section \<open>The slot matcher\<close>

text \<open>
  The value that \<open>findProgrammeForSlot\<close> has in \<open>list\<close> when its loop starts. Every array
  is truthy, also an empty one; so is every inherited member.
\<close>

definition candidateList :: "guide_state \<Rightarrow> channel \<Rightarrow> (programme list) jsval" where
  "candidateList st channel =
     (let byId =
        (case tvgId channel of
           None \<Rightarrow> Undefined
         | Some t \<Rightarrow> if t = [] then Undefined else getProp (epgScheduleByTvgId st) t)
      in if byId \<noteq> Undefined then byId
         else
           (let nameKey = toLowerCase (name channel);
                byName = getNormalized (epgScheduleNormalized st) nameKey
            in if byName \<noteq> Undefined then byName
               else
                 (let exact = getProp (epgSchedule st) (name channel)
                  in if exact \<noteq> Undefined then exact else Value [])))"

definition overlaps :: "int \<Rightarrow> int \<Rightarrow> programme \<Rightarrow> bool" where
  "overlaps slotStart slotEnd prog = (start prog < slotEnd \<and> end' prog > slotStart)"

text \<open>\<open>for (const prog of list)\<close> throws when \<open>list\<close> is no array.\<close>

definition findProgrammeForSlot ::
  "guide_state \<Rightarrow> channel \<Rightarrow> int \<Rightarrow> int \<Rightarrow> error + programme option" where
  "findProgrammeForSlot st channel slotStart slotEnd =
     (case candidateList st channel of
        Value list \<Rightarrow> Inr (find (overlaps slotStart slotEnd) list)
      | _ \<Rightarrow> Inl TypeError)"

text \<open>
  \<open>loadEpg\<close>: \<open>fetched\<close> is the text of the response, \<^term>\<open>None\<close> when the request failed.
  After a successful parse the guide and the mini guide are rendered, which calls
  \<open>findProgrammeForSlot\<close> for every channel of the playlist; any exception inside the
  \<open>try\<close> block resets the three tables. (Rendering is modelled no further.)
\<close>

definition renderThrows :: "guide_state \<Rightarrow> channel list \<Rightarrow> bool" where
  "renderThrows st channels =
     list_ex (\<lambda>ch. case candidateList st ch of Value list \<Rightarrow> False | _ \<Rightarrow> True) channels"

definition loadEpg ::
  "(string \<Rightarrow> xml_doc) \<Rightarrow> int \<Rightarrow> channel list \<Rightarrow> string option \<Rightarrow> guide_state" where
  "loadEpg parseFromString localOffset channels fetched =
     (case fetched of
        None \<Rightarrow> emptyState
      | Some xml \<Rightarrow>
          (case parseEpgXml parseFromString localOffset xml of
             Inl e \<Rightarrow> emptyState
           | Inr parsed \<Rightarrow>
               (let st = \<lparr>epgSchedule = fst parsed,
                          epgScheduleNormalized = normalizeSchedule (fst parsed),
                          epgScheduleByTvgId = snd parsed\<rparr>
                in if renderThrows st channels then emptyState else st)))"

section \<open>The presence message\<close>

text \<open>The \<open>length\<close> of an inherited member of \<open>Object.prototype\<close>, if it has one.\<close>

definition builtinLength :: "string \<Rightarrow> int option" where
  "builtinLength b =
     (if b = ''__proto__'' then None
      else if b \<in> {''__defineGetter__'', ''__defineSetter__''} then Some 2
      else if b \<in> {''toString'', ''valueOf'', ''toLocaleString''} then Some 0
      else Some 1)"

text \<open>
  \<open>updateInfoDisplay(channelIndex, null)\<close>: the test
  \<open>epgSchedule[channel.name] && epgSchedule[channel.name].length > 0\<close> and the text it selects.
\<close>

definition hasSchedule :: "guide_state \<Rightarrow> channel \<Rightarrow> bool" where
  "hasSchedule st channel =
     (case getProp (epgSchedule st) (name channel) of
        Undefined \<Rightarrow> False
      | Value list \<Rightarrow> 0 < length list
      | Builtin b \<Rightarrow> (case builtinLength b of None \<Rightarrow> False | Some n \<Rightarrow> 0 < n))"

definition descriptionText :: "guide_state \<Rightarrow> channel \<Rightarrow> string" where
  "descriptionText st channel =
     (if hasSchedule st channel then ''No programme information for this slot''
      else ''No EPG data available'')"

section \<open>The time window\<close>

text \<open>
  The click handlers of the four navigation buttons, on \<open>timeWindowStart\<close> (\<open>null\<close> until the
  first render) and the clock. Each returns the new \<open>timeWindowStart\<close> and the message
  shown; reading \<open>getTime\<close> of \<open>null\<close> throws. Times are time values in milliseconds;
  the clock and the window are taken far inside the range of \<open>Date\<close>, where
  \<open>new Date(t)\<close> keeps \<open>t\<close>.
\<close>

definition scrollBackClick :: "int \<Rightarrow> int option \<Rightarrow> error + int option \<times> string" where
  "scrollBackClick now timeWindowStart =
     (case timeWindowStart of
        None \<Rightarrow> Inl TypeError
      | Some t \<Rightarrow>
          (let oneWeekAgo = now - 7 * 24 * 60 * 60 * 1000;
               newTime = t - 12 * 60 * 60 * 1000
           in if newTime < oneWeekAgo then Inr (Some t, ''Cannot go back more than 1 week'')
              else Inr (Some newTime, ''Scrolled -12 hours'')))"

definition scrollForwardClick :: "int \<Rightarrow> int option \<Rightarrow> error + int option \<times> string" where
  "scrollForwardClick now timeWindowStart =
     (case timeWindowStart of
        None \<Rightarrow> Inl TypeError
      | Some t \<Rightarrow>
          (let oneWeekForward = now + 7 * 24 * 60 * 60 * 1000;
               newTime = t + 12 * 60 * 60 * 1000
           in if newTime > oneWeekForward then Inr (Some t, ''Cannot go forward more than 1 week'')
              else Inr (Some newTime, ''Scrolled +12 hours'')))"

definition scrollBackHourClick :: "int \<Rightarrow> int option \<Rightarrow> error + int option \<times> string" where
  "scrollBackHourClick now timeWindowStart =
     (case timeWindowStart of
        None \<Rightarrow> Inl TypeError
      | Some t \<Rightarrow>
          (let oneWeekAgo = now - 7 * 24 * 60 * 60 * 1000;
               newTime = t - 1 * 60 * 60 * 1000
           in if newTime < oneWeekAgo then Inr (Some t, ''Cannot go back more than 1 week'')
              else Inr (Some newTime, ''Scrolled -1 hour'')))"

definition scrollForwardHourClick :: "int \<Rightarrow> int option \<Rightarrow> error + int option \<times> string" where
  "scrollForwardHourClick now timeWindowStart =
     (case timeWindowStart of
        None \<Rightarrow> Inl TypeError
      | Some t \<Rightarrow>
          (let oneWeekForward = now + 7 * 24 * 60 * 60 * 1000;
               newTime = t + 1 * 60 * 60 * 1000
           in if newTime > oneWeekForward then Inr (Some t, ''Cannot go forward more than 1 week'')
              else Inr (Some newTime, ''Scrolled +1 hour'')))"

text \<open>The four buttons with the shift each applies, and the week of the bound.\<close>

definition week :: int where
  "week = 7 * 24 * 60 * 60 * 1000"

definition navigationButtons ::
  "((int \<Rightarrow> int option \<Rightarrow> error + int option \<times> string) \<times> int) list" where
  "navigationButtons =
     [(scrollBackClick, - 12 * 60 * 60 * 1000), (scrollForwardClick, 12 * 60 * 60 * 1000),
      (scrollBackHourClick, - 1 * 60 * 60 * 1000), (scrollForwardHourClick, 1 * 60 * 60 * 1000)]"

section \<open>Notions used to state the properties\<close>

text \<open>The programmes stored in a table, and the lists held by the tables of a state.\<close>

definition storedProgrammes :: "(programme list) dict \<Rightarrow> programme set" where
  "storedProgrammes obj = (\<Union>e \<in> set obj. set (snd e))"

definition tableLists :: "guide_state \<Rightarrow> programme list set" where
  "tableLists st =
     snd ` set (epgSchedule st) \<union> snd ` set (epgScheduleByTvgId st)
       \<union> snd ` set (own (epgScheduleNormalized st))
       \<union> set_option (protoArray (epgScheduleNormalized st))"

text \<open>
  The candidate list in the words of the lookup order, read on the tables as the program
  keeps them: the list a table holds at a key is empty when no list is there; the first
  tier is tried for a non-empty \<open>tvgId\<close>, the second tier reads the table of lower-cased
  names, the third the table of exact display names, and the first non-empty list wins.
\<close>

definition listAt :: "(programme list) jsval \<Rightarrow> programme list" where
  "listAt v = (case v of Value list \<Rightarrow> list | _ \<Rightarrow> [])"

definition tieredCandidates :: "guide_state \<Rightarrow> channel \<Rightarrow> programme list" where
  "tieredCandidates st channel =
     (let byId = (case tvgId channel of
                    None \<Rightarrow> []
                  | Some t \<Rightarrow> if t = [] then [] else listAt (getProp (epgScheduleByTvgId st) t));
          byName = listAt (getNormalized (epgScheduleNormalized st) (toLowerCase (name channel)));
          exact = listAt (getProp (epgSchedule st) (name channel))
      in if byId \<noteq> [] then byId else if byName \<noteq> [] then byName else exact)"

text \<open>
  Whether the lookup for a channel ends on an inherited member instead of a list.
\<close>

definition hitsInherited :: "guide_state \<Rightarrow> channel \<Rightarrow> bool" where
  "hitsInherited st channel =
     (case candidateList st channel of Builtin b \<Rightarrow> True | _ \<Rightarrow> False)"

text \<open>
  The lookup order as the specification words it: the first tier for a \<open>stableId\<close> that
  is not null and is a key of the table by feed identifier, then the table of normalized
  names at the lower-cased display name, then the same table at the display name as it is.
\<close>

definition specCandidates :: "guide_state \<Rightarrow> channel \<Rightarrow> programme list" where
  "specCandidates st channel =
     (let byId = (case tvgId channel of
                    None \<Rightarrow> []
                  | Some t \<Rightarrow> listAt (getProp (epgScheduleByTvgId st) t));
          byName = listAt (getNormalized (epgScheduleNormalized st) (toLowerCase (name channel)));
          unnormalized = listAt (getNormalized (epgScheduleNormalized st) (name channel))
      in if byId \<noteq> [] then byId else if byName \<noteq> [] then byName else unnormalized)"

text \<open>
  The display names of a table that lower-case to a key, each with its list, in the order
  in which \<open>Object.keys\<close> enumerates them: the assignments that \<open>loadEpg\<close> makes at that
  key of \<open>epgScheduleNormalized\<close>, in the order in which it makes them.
\<close>

definition writersOf :: "(programme list) dict \<Rightarrow> string \<Rightarrow> (string \<times> programme list) list" where
  "writersOf schedule k = filter (\<lambda>e. toLowerCase (fst e) = k) (Object_entries schedule)"

section \<open>Sample feeds\<close>

definition newsInfo :: prog_info where
  "newsInfo = \<lparr>title = ''News'', subtitle = [], desc = [], rating = [], season = None,
     episodeNumber = None\<rparr>"

definition lateInfo :: prog_info where
  "lateInfo = \<lparr>title = ''Late Show'', subtitle = [], desc = [], rating = [], season = None,
     episodeNumber = None\<rparr>"

text \<open>
  One channel \<open>5\<close> named \<open>News channel\<close> with the programme \<open>News\<close> from 18:00 to 19:00 at
  offset \<open>-0500\<close>.
\<close>

definition newsFeed :: xml_doc where
  "newsFeed =
     \<lparr>channelNodes = [\<lparr>cn_id = Some ''5'', cn_display = Some ''News channel'', cn_icon = None\<rparr>],
      programmes = [\<lparr>pn_channel = Some ''5'', pn_start = Some ''20240101180000 -0500'',
                      pn_stop = Some ''20240101190000 -0500'', pn_info = newsInfo\<rparr>]\<rparr>"

text \<open>The same programme with start and stop exchanged.\<close>

definition reversedFeed :: xml_doc where
  "reversedFeed =
     \<lparr>channelNodes = [\<lparr>cn_id = Some ''5'', cn_display = Some ''News channel'', cn_icon = None\<rparr>],
      programmes = [\<lparr>pn_channel = Some ''5'', pn_start = Some ''20240101190000 -0500'',
                      pn_stop = Some ''20240101180000 -0500'', pn_info = newsInfo\<rparr>]\<rparr>"

text \<open>A programme whose channel attribute is \<open>constructor\<close>.\<close>

definition constructorFeed :: xml_doc where
  "constructorFeed =
     \<lparr>channelNodes = [],
      programmes = [\<lparr>pn_channel = Some ''constructor'', pn_start = Some ''20240101180000 -0500'',
                      pn_stop = Some ''20240101190000 -0500'', pn_info = newsInfo\<rparr>]\<rparr>"

text \<open>Two channels whose display names differ in case only, with one programme each.\<close>

definition caseFeed :: xml_doc where
  "caseFeed =
     \<lparr>channelNodes = [\<lparr>cn_id = Some ''1'', cn_display = Some ''News'', cn_icon = None\<rparr>,
                      \<lparr>cn_id = Some ''2'', cn_display = Some ''NEWS'', cn_icon = None\<rparr>],
      programmes = [\<lparr>pn_channel = Some ''1'', pn_start = Some ''20240101180000 -0500'',
                      pn_stop = Some ''20240101190000 -0500'', pn_info = newsInfo\<rparr>,
                    \<lparr>pn_channel = Some ''2'', pn_start = Some ''20240101200000 -0500'',
                      pn_stop = Some ''20240101210000 -0500'', pn_info = lateInfo\<rparr>]\<rparr>"

definition newsProgramme :: programme where
  "newsProgramme = mkProgramme newsInfo 1704150000000 1704153600000 None"

definition lateProgramme :: programme where
  "lateProgramme = mkProgramme lateInfo 1704157200000 1704160800000 None"

text \<open>Channel \<open>5\<close> with two programmes, the later one first in the document.\<close>

definition unsortedFeed :: xml_doc where
  "unsortedFeed =
     \<lparr>channelNodes = [\<lparr>cn_id = Some ''5'', cn_display = Some ''News channel'', cn_icon = None\<rparr>],
      programmes = [\<lparr>pn_channel = Some ''5'', pn_start = Some ''20240101200000 -0500'',
                      pn_stop = Some ''20240101210000 -0500'', pn_info = lateInfo\<rparr>,
                    \<lparr>pn_channel = Some ''5'', pn_start = Some ''20240101180000 -0500'',
                      pn_stop = Some ''20240101190000 -0500'', pn_info = newsInfo\<rparr>]\<rparr>"

text \<open>
  Three channel definitions: \<open>1\<close> and \<open>2\<close> share the display name \<open>News\<close>, and \<open>3\<close> is
  named \<open>NEWS\<close>; each has one programme.
\<close>

definition morningInfo :: prog_info where
  "morningInfo = \<lparr>title = ''Morning'', subtitle = [], desc = [], rating = [], season = None,
     episodeNumber = None\<rparr>"

definition morningProgramme :: programme where
  "morningProgramme = mkProgramme morningInfo 1704106800000 1704110400000 None"

definition sharedNameFeed :: xml_doc where
  "sharedNameFeed =
     \<lparr>channelNodes = [\<lparr>cn_id = Some ''1'', cn_display = Some ''News'', cn_icon = None\<rparr>,
                      \<lparr>cn_id = Some ''2'', cn_display = Some ''News'', cn_icon = None\<rparr>,
                      \<lparr>cn_id = Some ''3'', cn_display = Some ''NEWS'', cn_icon = None\<rparr>],
      programmes = [\<lparr>pn_channel = Some ''1'', pn_start = Some ''20240101180000 -0500'',
                      pn_stop = Some ''20240101190000 -0500'', pn_info = newsInfo\<rparr>,
                    \<lparr>pn_channel = Some ''2'', pn_start = Some ''20240101200000 -0500'',
                      pn_stop = Some ''20240101210000 -0500'', pn_info = lateInfo\<rparr>,
                    \<lparr>pn_channel = Some ''3'', pn_start = Some ''20240101060000 -0500'',
                      pn_stop = Some ''20240101070000 -0500'', pn_info = morningInfo\<rparr>]\<rparr>"

text \<open>
  The reading of a timestamp \<open>YYYYMMDDHHMMSS\<close> of fourteen digits: what \<open>Date.UTC\<close> makes
  of its six fields, and the minutes of an offset \<open>\<plusminus>HHMM\<close>.
\<close>

definition fieldsInstant :: "string \<Rightarrow> int" where
  "fieldsInstant ds =
     utcMillis (decimal (slice ds 0 4)) (decimal (slice ds 4 6) - 1) (decimal (slice ds 6 8))
       (decimal (slice ds 8 10)) (decimal (slice ds 10 12)) (decimal (slice ds 12 14))"

definition offsetMinutes :: "char \<Rightarrow> string \<Rightarrow> int" where
  "offsetMinutes sg tz =
     (if sg = CHR ''+'' then 1 else - 1) * (decimal (take 2 tz) * 60 + decimal (drop 2 tz))"

text \<open>
  Wall-clock fields, for the round trip of the specification. The fields are valid when
  they name a date of the (proleptic) Gregorian calendar and a time of day; their instant
  is taken as \<open>Date.UTC\<close> takes it for a year of four digits. An instant \<open>t\<close>, re-expressed
  in an offset of so many minutes, reads as the valid fields whose instant is \<open>t\<close> moved by
  that offset.
\<close>

definition daysInMonth :: "int \<Rightarrow> int \<Rightarrow> int" where
  "daysInMonth y mo =
     (if mo = 2 then (if InLeapYear y then 29 else 28)
      else if mo = 4 \<or> mo = 6 \<or> mo = 9 \<or> mo = 11 then 30 else 31)"

record wall_clock =
  wc_year :: int
  wc_month :: int
  wc_day :: int
  wc_hour :: int
  wc_minute :: int
  wc_second :: int

definition validCalendar :: "wall_clock \<Rightarrow> bool" where
  "validCalendar f =
     (1 \<le> wc_month f \<and> wc_month f \<le> 12
      \<and> 1 \<le> wc_day f \<and> wc_day f \<le> daysInMonth (wc_year f) (wc_month f)
      \<and> 0 \<le> wc_hour f \<and> wc_hour f < 24 \<and> 0 \<le> wc_minute f \<and> wc_minute f < 60
      \<and> 0 \<le> wc_second f \<and> wc_second f < 60)"

definition civilMillis :: "wall_clock \<Rightarrow> int" where
  "civilMillis f =
     MakeDate (MakeDay (wc_year f) (wc_month f - 1) (wc_day f))
       (MakeTime (wc_hour f) (wc_minute f) (wc_second f) 0)"

definition readsAs :: "int \<Rightarrow> int \<Rightarrow> wall_clock \<Rightarrow> bool" where
  "readsAs offset t f = (validCalendar f \<and> civilMillis f = t + offset * 60000)"

text \<open>The fields written in a timestamp of fourteen digits.\<close>

definition timestampFields :: "string \<Rightarrow> wall_clock" where
  "timestampFields ds =
     \<lparr>wc_year = decimal (slice ds 0 4), wc_month = decimal (slice ds 4 6),
      wc_day = decimal (slice ds 6 8), wc_hour = decimal (slice ds 8 10),
      wc_minute = decimal (slice ds 10 12), wc_second = decimal (slice ds 12 14)\<rparr>"

section \<open>Properties of the time window\<close>

text \<open>
  C6, as amended. Each button guards the bound of the direction it moves in, and only that
  one: a backward shift is rejected exactly when the new start is earlier than now minus
  seven days, a forward shift exactly when it is later than now plus seven days. A rejected
  shift leaves the window start as it was and reports the notice; every other shift is
  committed.
\<close>

theorem shift_rejected_one_sided:
  assumes "(handler, delta) \<in> set navigationButtons"
  shows "(if delta < 0 \<and> t + delta < now - week
          then handler now (Some t) = Inr (Some t, ''Cannot go back more than 1 week'')
          else if 0 < delta \<and> now + week < t + delta
          then handler now (Some t) = Inr (Some t, ''Cannot go forward more than 1 week'')
          else \<exists>msg. handler now (Some t) = Inr (Some (t + delta), msg))"
  using assms
  by (auto simp: navigationButtons_def week_def scrollBackClick_def scrollForwardClick_def
      scrollBackHourClick_def scrollForwardHourClick_def Let_def)

theorem shift_rejected_one_sided_witness:
  "scrollBackClick 1000000000000 (Some 999400000000)
     = Inr (Some 999400000000, ''Cannot go back more than 1 week'')
   \<and> (\<exists>msg. scrollForwardClick 1000000000000 (Some 999400000000) = Inr (Some 999443200000, msg))"
proof -
  have b: "(scrollBackClick, - 43200000) \<in> set navigationButtons"
    by (simp add: navigationButtons_def)
  have f: "(scrollForwardClick, 43200000) \<in> set navigationButtons"
    by (simp add: navigationButtons_def)
  show ?thesis
    using shift_rejected_one_sided [OF b, of 999400000000 1000000000000]
      shift_rejected_one_sided [OF f, of 999400000000 1000000000000]
    by (simp add: week_def)
qed

text \<open>
  C6 as stated fails: with the window start two hours below now minus seven days, the
  one-hour forward button moves it to a start that is still earlier than now minus seven
  days, and commits it.
\<close>

theorem shift_below_lower_bound_committed:
  "999388000000 + 1 * 60 * 60 * 1000 < (1000000000000 :: int) - 7 * 24 * 60 * 60 * 1000
   \<and> scrollForwardHourClick 1000000000000 (Some 999388000000)
       = Inr (Some (999388000000 + 1 * 60 * 60 * 1000), ''Scrolled +1 hour'')"
  by (simp add: scrollForwardHourClick_def)

section \<open>Properties of the feed parser\<close>

lemma storedProgrammes_Nil [simp]: "storedProgrammes [] = {}"
  by (simp add: storedProgrammes_def)

lemma storedProgrammes_Cons [simp]:
  "storedProgrammes (e # obj) = set (snd e) \<union> storedProgrammes obj"
  by (simp add: storedProgrammes_def)

lemma stored_update_new:
  "map_of obj k = None \<Longrightarrow> storedProgrammes (AList.update k [x] obj) = insert x (storedProgrammes obj)"
  by (induction obj) (auto split: if_splits)

lemma stored_update_old:
  "map_of obj k = Some xs \<Longrightarrow>
     storedProgrammes (AList.update k (xs @ [x]) obj) = insert x (storedProgrammes obj)"
  by (induction obj) (auto split: if_splits)

lemma pushProgramme_stored:
  assumes "pushProgramme obj k x = Inr obj'"
  shows "storedProgrammes obj' = insert x (storedProgrammes obj)"
  using assms
  by (auto simp: pushProgramme_def getProp_def stored_update_new stored_update_old
      split: option.splits if_splits)

lemma update_nonempty:
  "v \<noteq> [] \<Longrightarrow> \<forall>e \<in> set obj. snd e \<noteq> [] \<Longrightarrow> \<forall>e \<in> set (AList.update k v obj). snd e \<noteq> []"
  by (induction obj) (auto split: if_splits)

lemma pushProgramme_nonempty:
  assumes "pushProgramme obj k x = Inr obj'" and "\<forall>e \<in> set obj. snd e \<noteq> []"
  shows "\<forall>e \<in> set obj'. snd e \<noteq> []"
  using assms update_nonempty [of _ obj k]
  by (auto simp: pushProgramme_def getProp_def split: option.splits if_splits)

lemma pushProgramme_distinct:
  assumes "pushProgramme obj k x = Inr obj'" and "distinct (map fst obj)"
  shows "distinct (map fst obj')"
  using assms
  by (auto simp: pushProgramme_def getProp_def distinct_update split: option.splits if_splits)

text \<open>What one pass of the programme loop does when both timestamps are valid.\<close>

lemma addProgramme_valid:
  assumes "addProgramme localOffset tables acc p = Inr acc'"
    and "parseTimeStr localOffset (orEmpty (pn_start p)) = Some st"
    and "parseTimeStr localOffset (orEmpty (pn_stop p)) = Some en"
  shows "\<exists>dn. displayNameKey (fst tables) (pn_channel p) = Some dn
           \<and> pushProgramme (fst acc) dn
                 (mkProgramme (pn_info p) st en (iconOf (snd tables) (pn_channel p)))
               = Inr (fst acc')
           \<and> pushProgramme (snd acc) (keyOf (pn_channel p))
                 (mkProgramme (pn_info p) st en (iconOf (snd tables) (pn_channel p)))
               = Inr (snd acc')"
  using assms by (auto simp: addProgramme_def Let_def split: option.splits sum.splits)

lemma addProgramme_invalid:
  assumes "parseTimeStr localOffset (orEmpty (pn_start p)) = None
           \<or> parseTimeStr localOffset (orEmpty (pn_stop p)) = None"
  shows "addProgramme localOffset tables acc p = Inr acc"
  using assms by (auto simp: addProgramme_def Let_def split: option.splits)

lemma addProgramme_stored:
  assumes "addProgramme localOffset tables acc p = Inr acc'"
    and "\<forall>q \<in> storedProgrammes (fst acc) \<union> storedProgrammes (snd acc). Q q"
    and "\<And>st en ic. parseTimeStr localOffset (orEmpty (pn_start p)) = Some st \<Longrightarrow>
           parseTimeStr localOffset (orEmpty (pn_stop p)) = Some en \<Longrightarrow>
           Q (mkProgramme (pn_info p) st en ic)"
  shows "\<forall>q \<in> storedProgrammes (fst acc') \<union> storedProgrammes (snd acc'). Q q"
proof (cases "parseTimeStr localOffset (orEmpty (pn_start p)) = None
           \<or> parseTimeStr localOffset (orEmpty (pn_stop p)) = None")
  case True
  with assms(1,2) addProgramme_invalid [OF True, of tables acc] show ?thesis by simp
next
  case False
  then obtain st en where
    st: "parseTimeStr localOffset (orEmpty (pn_start p)) = Some st"
    and en: "parseTimeStr localOffset (orEmpty (pn_stop p)) = Some en"
    by auto
  let ?x = "mkProgramme (pn_info p) st en (iconOf (snd tables) (pn_channel p))"
  from addProgramme_valid [OF assms(1) st en] obtain dn where
    s1: "pushProgramme (fst acc) dn ?x = Inr (fst acc')"
    and s2: "pushProgramme (snd acc) (keyOf (pn_channel p)) ?x = Inr (snd acc')"
    by blast
  have "Q ?x" using assms(3) st en by blast
  then show ?thesis
    using assms(2) pushProgramme_stored [OF s1] pushProgramme_stored [OF s2] by auto
qed

lemma addProgrammes_stored:
  assumes "addProgrammes localOffset tables acc ps = Inr acc'"
    and "\<forall>q \<in> storedProgrammes (fst acc) \<union> storedProgrammes (snd acc). Q q"
    and "\<And>p st en ic. p \<in> set ps \<Longrightarrow>
           parseTimeStr localOffset (orEmpty (pn_start p)) = Some st \<Longrightarrow>
           parseTimeStr localOffset (orEmpty (pn_stop p)) = Some en \<Longrightarrow>
           Q (mkProgramme (pn_info p) st en ic)"
  shows "\<forall>q \<in> storedProgrammes (fst acc') \<union> storedProgrammes (snd acc'). Q q"
  using assms
proof (induction ps arbitrary: acc)
  case Nil
  then show ?case by simp
next
  case (Cons p ps)
  from Cons.prems(1) obtain mid where
    m: "addProgramme localOffset tables acc p = Inr mid"
    and rest: "addProgrammes localOffset tables mid ps = Inr acc'"
    by (auto split: sum.splits)
  have "\<forall>q \<in> storedProgrammes (fst mid) \<union> storedProgrammes (snd mid). Q q"
    by (rule addProgramme_stored [OF m Cons.prems(2)]) (rule Cons.prems(3), simp_all)
  then show ?case
    by (rule Cons.IH [OF rest]) (rule Cons.prems(3), simp_all)
qed

lemma addProgramme_shape:
  assumes "addProgramme localOffset tables acc p = Inr acc'"
    and "\<forall>e \<in> set (fst acc) \<union> set (snd acc). snd e \<noteq> []"
    and "distinct (map fst (fst acc))" and "distinct (map fst (snd acc))"
  shows "(\<forall>e \<in> set (fst acc') \<union> set (snd acc'). snd e \<noteq> [])
         \<and> distinct (map fst (fst acc')) \<and> distinct (map fst (snd acc'))"
proof (cases "parseTimeStr localOffset (orEmpty (pn_start p)) = None
           \<or> parseTimeStr localOffset (orEmpty (pn_stop p)) = None")
  case True
  with assms addProgramme_invalid [OF True, of tables acc] show ?thesis by simp
next
  case False
  then obtain st en where
    st: "parseTimeStr localOffset (orEmpty (pn_start p)) = Some st"
    and en: "parseTimeStr localOffset (orEmpty (pn_stop p)) = Some en"
    by auto
  let ?x = "mkProgramme (pn_info p) st en (iconOf (snd tables) (pn_channel p))"
  from addProgramme_valid [OF assms(1) st en] obtain dn where
    s1: "pushProgramme (fst acc) dn ?x = Inr (fst acc')"
    and s2: "pushProgramme (snd acc) (keyOf (pn_channel p)) ?x = Inr (snd acc')"
    by blast
  show ?thesis
    using pushProgramme_nonempty [OF s1] pushProgramme_nonempty [OF s2]
      pushProgramme_distinct [OF s1] pushProgramme_distinct [OF s2] assms(2-4)
    by auto
qed

lemma addProgrammes_shape:
  assumes "addProgrammes localOffset tables acc ps = Inr acc'"
    and "\<forall>e \<in> set (fst acc) \<union> set (snd acc). snd e \<noteq> []"
    and "distinct (map fst (fst acc))" and "distinct (map fst (snd acc))"
  shows "(\<forall>e \<in> set (fst acc') \<union> set (snd acc'). snd e \<noteq> [])
         \<and> distinct (map fst (fst acc')) \<and> distinct (map fst (snd acc'))"
  using assms
proof (induction ps arbitrary: acc)
  case Nil
  then show ?case by simp
next
  case (Cons p ps)
  from Cons.prems(1) obtain mid where
    m: "addProgramme localOffset tables acc p = Inr mid"
    and rest: "addProgrammes localOffset tables mid ps = Inr acc'"
    by (auto split: sum.splits)
  from addProgramme_shape [OF m Cons.prems(2-4)] Cons.IH [OF rest]
  show ?case by blast
qed

lemma storedProgrammes_sortByStart [simp]:
  "storedProgrammes (sortByStart obj) = storedProgrammes obj"
  by (induction obj) (simp_all add: sortByStart_def)

lemma keys_sortByStart [simp]: "map fst (sortByStart obj) = map fst obj"
  by (simp add: sortByStart_def)

lemma map_of_sortByStart:
  "map_of (sortByStart obj) k = map_option (sort_key start) (map_of obj k)"
  by (induction obj) (auto simp: sortByStart_def)

lemma sortByStart_lists:
  assumes "e \<in> set (sortByStart obj)"
  shows "sorted (map start (snd e)) \<and> (\<exists>e0 \<in> set obj. length (snd e) = length (snd e0))"
  using assms by (force simp: sortByStart_def)

lemma mkProgramme_sel [simp]:
  "start (mkProgramme info st en ic) = st" "end' (mkProgramme info st en ic) = en"
  "icon (mkProgramme info st en ic) = ic"
  by (simp_all add: mkProgramme_def prog_info.defs programme.defs)

lemma parseDocument_Inr:
  assumes "parseDocument localOffset xmlDoc = Inr (schedule, scheduleByTvgId)"
  obtains acc where
    "addProgrammes localOffset (channelTables (channelNodes xmlDoc)) ([], []) (programmes xmlDoc)
       = Inr acc"
    and "schedule = sortByStart (fst acc)" and "scheduleByTvgId = sortByStart (snd acc)"
  using assms by (auto simp: parseDocument_def split: sum.splits)

text \<open>
  C1, as amended. A programme that is stored in either index comes from a programme element
  whose start and stop both decode to a valid instant, and carries these two instants: an
  element with a timestamp that does not decode is never stored. (The two instants are
  not compared.)
\<close>

theorem stored_programmes_have_valid_instants:
  assumes "parseEpgXml parseFromString localOffset xmlString = Inr (schedule, scheduleByTvgId)"
    and "q \<in> storedProgrammes schedule \<union> storedProgrammes scheduleByTvgId"
  shows "\<exists>p \<in> set (programmes (parseFromString xmlString)).
           parseTimeStr localOffset (orEmpty (pn_start p)) = Some (start q)
           \<and> parseTimeStr localOffset (orEmpty (pn_stop p)) = Some (end' q)"
proof -
  let ?doc = "parseFromString xmlString"
  let ?Q = "\<lambda>q. \<exists>p \<in> set (programmes ?doc).
           parseTimeStr localOffset (orEmpty (pn_start p)) = Some (start q)
           \<and> parseTimeStr localOffset (orEmpty (pn_stop p)) = Some (end' q)"
  from assms(1) obtain acc where
    a: "addProgrammes localOffset (channelTables (channelNodes ?doc)) ([], []) (programmes ?doc)
          = Inr acc"
    and s: "schedule = sortByStart (fst acc)" "scheduleByTvgId = sortByStart (snd acc)"
    unfolding parseEpgXml_def by (rule parseDocument_Inr)
  have "\<forall>q \<in> storedProgrammes (fst acc) \<union> storedProgrammes (snd acc). ?Q q"
    by (rule addProgrammes_stored [OF a]) auto
  with assms(2) s show ?thesis by simp
qed

lemma newsFeed_parsed:
  "parseDocument 0 newsFeed
     = Inr ([(''News channel'', [newsProgramme])], [(''5'', [newsProgramme])])"
  by code_simp

theorem stored_programmes_have_valid_instants_witness:
  "parseEpgXml (\<lambda>xml. newsFeed) 0 [] = Inr ([(''News channel'', [newsProgramme])], [(''5'', [newsProgramme])])
   \<and> newsProgramme \<in> storedProgrammes [(''News channel'', [newsProgramme])]
         \<union> storedProgrammes [(''5'', [newsProgramme])]
   \<and> (\<exists>p \<in> set (programmes newsFeed).
           parseTimeStr 0 (orEmpty (pn_start p)) = Some (start newsProgramme)
           \<and> parseTimeStr 0 (orEmpty (pn_stop p)) = Some (end' newsProgramme))"
proof -
  have h1: "parseEpgXml (\<lambda>xml. newsFeed) 0 []
      = Inr ([(''News channel'', [newsProgramme])], [(''5'', [newsProgramme])])"
    by (simp add: parseEpgXml_def newsFeed_parsed)
  have h2: "newsProgramme \<in> storedProgrammes [(''News channel'', [newsProgramme])]
         \<union> storedProgrammes [(''5'', [newsProgramme])]"
    by simp
  from stored_programmes_have_valid_instants [OF h1 h2] h1 h2 show ?thesis by simp
qed

text \<open>
  C1 as stated fails: the programme of \<open>reversedFeed\<close> starts at 19:00 and stops at 18:00;
  both timestamps decode, and the programme is stored in both indices with its start after
  its end.
\<close>

theorem reversed_interval_is_stored:
  "parseDocument 0 reversedFeed
     = Inr ([(''News channel'', [mkProgramme newsInfo 1704153600000 1704150000000 None])],
            [(''5'', [mkProgramme newsInfo 1704153600000 1704150000000 None])])
   \<and> \<not> start (mkProgramme newsInfo 1704153600000 1704150000000 None)
         < end' (mkProgramme newsInfo 1704153600000 1704150000000 None)"
proof -
  have "parseDocument 0 reversedFeed
     = Inr ([(''News channel'', [mkProgramme newsInfo 1704153600000 1704150000000 None])],
            [(''5'', [mkProgramme newsInfo 1704153600000 1704150000000 None])])"
    by code_simp
  then show ?thesis by simp
qed

text \<open>
  C7. After parsing any feed text, every list of both returned indices is sorted ascending
  by programme start.
\<close>

theorem parsed_lists_sorted:
  assumes "parseEpgXml parseFromString localOffset xmlString = Inr (schedule, scheduleByTvgId)"
  shows "\<forall>e \<in> set schedule \<union> set scheduleByTvgId. sorted (map start (snd e))"
proof -
  from assms obtain acc where
    "schedule = sortByStart (fst acc)" "scheduleByTvgId = sortByStart (snd acc)"
    unfolding parseEpgXml_def by (rule parseDocument_Inr)
  then show ?thesis using sortByStart_lists by blast
qed

lemma unsortedFeed_parsed:
  "parseDocument 0 unsortedFeed
     = Inr ([(''News channel'', [newsProgramme, lateProgramme])],
            [(''5'', [newsProgramme, lateProgramme])])"
  by code_simp

theorem parsed_lists_sorted_witness:
  "parseEpgXml (\<lambda>xml. unsortedFeed) 0 []
     = Inr ([(''News channel'', [newsProgramme, lateProgramme])],
            [(''5'', [newsProgramme, lateProgramme])])
   \<and> sorted (map start [newsProgramme, lateProgramme])"
proof -
  have h: "parseEpgXml (\<lambda>xml. unsortedFeed) 0 []
     = Inr ([(''News channel'', [newsProgramme, lateProgramme])],
            [(''5'', [newsProgramme, lateProgramme])])"
    by (simp add: parseEpgXml_def unsortedFeed_parsed)
  from parsed_lists_sorted [OF h] h show ?thesis by simp
qed

text \<open>
  The parser returns when no programme element with two valid timestamps names an inherited
  member, neither by its channel attribute nor by its display name; a feed without
  programme elements gives two empty indices.
\<close>

lemma getProp_not_inherited:
  "k \<notin> set objectPrototypeKeys \<Longrightarrow> getProp obj k \<noteq> Builtin b"
  by (simp add: getProp_def split: option.splits)

lemma pushProgramme_returns:
  "k \<notin> set objectPrototypeKeys \<Longrightarrow> \<exists>obj'. pushProgramme obj k x = Inr obj'"
  using getProp_not_inherited [of k obj]
  by (cases "getProp obj k") (auto simp: pushProgramme_def)

lemma displayNameKey_returns:
  "keyOf channelId \<notin> set objectPrototypeKeys
     \<Longrightarrow> \<exists>dn. displayNameKey channelIdToName channelId = Some dn"
  by (simp add: displayNameKey_def getProp_def split: option.splits)

lemma addProgramme_returns:
  assumes "keyOf (pn_channel p) \<notin> set objectPrototypeKeys"
    and "\<And>dn. displayNameKey (fst tables) (pn_channel p) = Some dn
           \<Longrightarrow> dn \<notin> set objectPrototypeKeys"
  shows "\<exists>acc'. addProgramme localOffset tables acc p = Inr acc'"
proof (cases "parseTimeStr localOffset (orEmpty (pn_start p)) = None
           \<or> parseTimeStr localOffset (orEmpty (pn_stop p)) = None")
  case True
  then show ?thesis using addProgramme_invalid by blast
next
  case False
  then obtain st en where
    st: "parseTimeStr localOffset (orEmpty (pn_start p)) = Some st"
    and en: "parseTimeStr localOffset (orEmpty (pn_stop p)) = Some en"
    by auto
  let ?x = "mkProgramme (pn_info p) st en (iconOf (snd tables) (pn_channel p))"
  obtain dn where dn: "displayNameKey (fst tables) (pn_channel p) = Some dn"
    using displayNameKey_returns [OF assms(1)] by blast
  obtain sch where sch: "pushProgramme (fst acc) dn ?x = Inr sch"
    using pushProgramme_returns [OF assms(2) [OF dn]] by blast
  obtain tvg where tvg: "pushProgramme (snd acc) (keyOf (pn_channel p)) ?x = Inr tvg"
    using pushProgramme_returns [OF assms(1)] by blast
  show ?thesis
    by (simp add: addProgramme_def Let_def st en dn sch tvg)
qed

lemma addProgrammes_returns:
  assumes "\<forall>p \<in> set ps. keyOf (pn_channel p) \<notin> set objectPrototypeKeys
             \<and> (\<forall>dn. displayNameKey (fst tables) (pn_channel p) = Some dn
                   \<longrightarrow> dn \<notin> set objectPrototypeKeys)"
  shows "\<exists>acc'. addProgrammes localOffset tables acc ps = Inr acc'"
  using assms
proof (induction ps arbitrary: acc)
  case Nil
  then show ?case by simp
next
  case (Cons p ps)
  then obtain mid where "addProgramme localOffset tables acc p = Inr mid"
    using addProgramme_returns [of p tables localOffset acc] by auto
  with Cons show ?case by simp
qed

lemma parser_returns_without_inherited_keys:
  assumes "\<forall>p \<in> set (programmes xmlDoc). keyOf (pn_channel p) \<notin> set objectPrototypeKeys
             \<and> (\<forall>dn. displayNameKey (fst (channelTables (channelNodes xmlDoc))) (pn_channel p)
                       = Some dn \<longrightarrow> dn \<notin> set objectPrototypeKeys)"
  shows "\<exists>indices. parseDocument localOffset xmlDoc = Inr indices"
  using addProgrammes_returns [OF assms, of localOffset "([], [])"]
  by (auto simp: parseDocument_def)

lemma no_programme_elements_empty_indices:
  "programmes xmlDoc = [] \<Longrightarrow> parseDocument localOffset xmlDoc = Inr ([], [])"
  by (simp add: parseDocument_def sortByStart_def)

text \<open>
  C8 fails on the code. The programme of \<open>constructorFeed\<close> has the channel attribute
  \<open>constructor\<close>: \<open>scheduleByTvgId['constructor']\<close> reads the inherited member, which is
  truthy and has no \<open>push\<close>, and the parser throws instead of returning the indices.
\<close>

theorem inherited_key_makes_parser_throw:
  "parseDocument 0 constructorFeed = Inl TypeError"
  by code_simp

section \<open>Properties of the loaded state\<close>

lemma set_Object_entries [simp]: "set (Object_entries obj) = set obj"
  by (auto simp: Object_entries_def)

lemma update_values: "snd ` set (AList.update k v obj) \<subseteq> insert v (snd ` set obj)"
  by (induction obj) auto

lemma setNormalized_lists:
  "snd ` set (own (setNormalized acc k v)) \<union> set_option (protoArray (setNormalized acc k v))
     \<subseteq> insert v (snd ` set (own acc) \<union> set_option (protoArray acc))"
  using update_values [of k v "own acc"] by (auto simp: setNormalized_def)

lemma foldl_setNormalized_lists:
  assumes "snd ` set (own acc) \<union> set_option (protoArray acc) \<subseteq> S" and "snd ` set es \<subseteq> S"
  shows "snd ` set (own (foldl (\<lambda>acc e. setNormalized acc (toLowerCase (fst e)) (snd e)) acc es))
           \<union> set_option (protoArray
                 (foldl (\<lambda>acc e. setNormalized acc (toLowerCase (fst e)) (snd e)) acc es))
         \<subseteq> S"
  using assms
proof (induction es arbitrary: acc)
  case Nil
  then show ?case by simp
next
  case (Cons e es)
  have "insert (snd e) (snd ` set (own acc) \<union> set_option (protoArray acc)) \<subseteq> S"
    using Cons.prems by simp
  then have "snd ` set (own (setNormalized acc (toLowerCase (fst e)) (snd e)))
          \<union> set_option (protoArray (setNormalized acc (toLowerCase (fst e)) (snd e))) \<subseteq> S"
    by (rule subset_trans [OF setNormalized_lists])
  moreover have "snd ` set es \<subseteq> S" using Cons.prems by simp
  ultimately show ?case using Cons.IH by simp
qed

lemma normalizeSchedule_lists:
  "snd ` set (own (normalizeSchedule schedule))
     \<union> set_option (protoArray (normalizeSchedule schedule)) \<subseteq> snd ` set schedule"
  unfolding normalizeSchedule_def
  by (rule foldl_setNormalized_lists) simp_all


lemma parseDocument_lists:
  assumes "parseDocument localOffset xmlDoc = Inr (schedule, scheduleByTvgId)"
    and "e \<in> set schedule \<union> set scheduleByTvgId"
  shows "snd e \<noteq> [] \<and> sorted (map start (snd e))"
proof -
  from assms(1) obtain acc where
    a: "addProgrammes localOffset (channelTables (channelNodes xmlDoc)) ([], [])
          (programmes xmlDoc) = Inr acc"
    and s: "schedule = sortByStart (fst acc)" "scheduleByTvgId = sortByStart (snd acc)"
    by (rule parseDocument_Inr)
  have ne: "\<forall>e \<in> set (fst acc) \<union> set (snd acc). snd e \<noteq> []"
    using addProgrammes_shape [OF a] by simp
  from assms(2) s have "e \<in> set (sortByStart (fst acc)) \<or> e \<in> set (sortByStart (snd acc))"
    by simp
  then obtain e0 where "e0 \<in> set (fst acc) \<union> set (snd acc)"
    and "sorted (map start (snd e))" and "length (snd e) = length (snd e0)"
    using sortByStart_lists [of e "fst acc"] sortByStart_lists [of e "snd acc"] by blast
  with ne show ?thesis by fastforce
qed

text \<open>
  Every list held by a state that \<open>loadEpg\<close> leaves is non-empty and sorted ascending by
  start.
\<close>

lemma loadEpg_cases:
  obtains (reset) "loadEpg parseFromString localOffset channels fetched = emptyState"
  | (parsed) xml schedule scheduleByTvgId where "fetched = Some xml"
      and "parseEpgXml parseFromString localOffset xml = Inr (schedule, scheduleByTvgId)"
      and "loadEpg parseFromString localOffset channels fetched
             = \<lparr>epgSchedule = schedule, epgScheduleNormalized = normalizeSchedule schedule,
                epgScheduleByTvgId = scheduleByTvgId\<rparr>"
proof (cases fetched)
  case None
  then show ?thesis using reset by (simp add: loadEpg_def)
next
  case (Some xml)
  show ?thesis
  proof (cases "parseEpgXml parseFromString localOffset xml")
    case (Inl e)
    with Some show ?thesis using reset by (simp add: loadEpg_def)
  next
    case (Inr r)
    show ?thesis
    proof (cases "renderThrows \<lparr>epgSchedule = fst r,
        epgScheduleNormalized = normalizeSchedule (fst r), epgScheduleByTvgId = snd r\<rparr> channels")
      case True
      with Some Inr show ?thesis using reset by (simp add: loadEpg_def)
    next
      case False
      with Some Inr show ?thesis using parsed [of xml "fst r" "snd r"]
        by (simp add: loadEpg_def)
    qed
  qed
qed

lemma tableLists_emptyState [simp]: "tableLists emptyState = {}"
  by (simp add: tableLists_def emptyState_def)

lemma tableLists_parsed:
  "tableLists \<lparr>epgSchedule = schedule, epgScheduleNormalized = normalizeSchedule schedule,
       epgScheduleByTvgId = scheduleByTvgId\<rparr>
     \<subseteq> snd ` (set schedule \<union> set scheduleByTvgId)"
  using normalizeSchedule_lists [of schedule] by (auto simp: tableLists_def)

lemma loadEpg_tableLists:
  assumes "xs \<in> tableLists (loadEpg parseFromString localOffset channels fetched)"
  shows "xs \<noteq> [] \<and> sorted (map start xs)"
proof (cases rule: loadEpg_cases [of parseFromString localOffset channels fetched])
  case reset
  with assms show ?thesis by simp
next
  case (parsed xml schedule scheduleByTvgId)
  have p: "parseDocument localOffset (parseFromString xml) = Inr (schedule, scheduleByTvgId)"
    using parsed(2) by (simp add: parseEpgXml_def)
  have "xs \<in> tableLists \<lparr>epgSchedule = schedule,
      epgScheduleNormalized = normalizeSchedule schedule, epgScheduleByTvgId = scheduleByTvgId\<rparr>"
    using assms unfolding parsed(3) .
  then have "xs \<in> snd ` (set schedule \<union> set scheduleByTvgId)"
    using tableLists_parsed [of schedule scheduleByTvgId] by (rule set_rev_mp)
  then obtain e where e: "e \<in> set schedule \<union> set scheduleByTvgId" and xs: "xs = snd e"
    by blast
  from parseDocument_lists [OF p e] xs show ?thesis by simp
qed

lemma getProp_Value_in: "getProp obj k = Value v \<Longrightarrow> v \<in> snd ` set obj"
  by (auto simp: getProp_def split: option.splits if_splits dest!: map_of_SomeD intro: rev_image_eqI)

lemma getNormalized_Value_in:
  "getNormalized obj k = Value v \<Longrightarrow> v \<in> snd ` set (own obj) \<union> set_option (protoArray obj)"
  by (auto simp: getNormalized_def split: option.splits if_splits dest!: map_of_SomeD
      intro: rev_image_eqI)

lemma tier_lists_in_tables:
  "getProp (epgScheduleByTvgId st) k = Value v \<Longrightarrow> v \<in> tableLists st"
  "getProp (epgSchedule st) k = Value v \<Longrightarrow> v \<in> tableLists st"
  "getNormalized (epgScheduleNormalized st) k = Value v \<Longrightarrow> v \<in> tableLists st"
  using getProp_Value_in [of "epgScheduleByTvgId st" k v] getProp_Value_in [of "epgSchedule st" k v]
    getNormalized_Value_in [of "epgScheduleNormalized st" k v]
  by (auto simp: tableLists_def)

lemma candidateList_in_tables:
  assumes "candidateList st channel = Value xs"
  shows "xs = [] \<or> xs \<in> tableLists st"
  using assms tier_lists_in_tables [of st _ xs]
  by (auto simp: candidateList_def Let_def split: option.splits if_splits)

section \<open>Properties of the slot matcher\<close>

text \<open>
  The scan. When the lookup for a channel ends on a list, \<open>findProgrammeForSlot\<close> returns
  the first programme of that list that overlaps the slot, and none exactly when no
  programme of the list overlaps it; the lists of a loaded state are sorted, so a returned
  programme starts no later than any other overlapping candidate.
\<close>

lemma find_first_in_sorted:
  assumes "sorted (map f xs)" and "find P xs = Some p" and "q \<in> set xs" and "P q"
  shows "f p \<le> f q"
proof -
  from assms(2) obtain i where i: "i < length xs" "xs ! i = p" "\<forall>j < i. \<not> P (xs ! j)"
    by (auto simp: find_Some_iff)
  from assms(3) obtain j where j: "j < length xs" "xs ! j = q"
    by (auto simp: in_set_conv_nth)
  with assms(4) i(3) have "i \<le> j" by (meson not_le_imp_less)
  with assms(1) i j show ?thesis
    by (metis length_map nth_map sorted_nth_mono)
qed

lemma slot_matcher_first_overlap:
  assumes "candidateList (loadEpg parseFromString localOffset channels fetched) channel = Value xs"
  shows "findProgrammeForSlot (loadEpg parseFromString localOffset channels fetched) channel
             slotStart slotEnd
           = Inr (find (overlaps slotStart slotEnd) xs)"
    and "find (overlaps slotStart slotEnd) xs = None
           \<longleftrightarrow> \<not> (\<exists>q \<in> set xs. overlaps slotStart slotEnd q)"
    and "find (overlaps slotStart slotEnd) xs = Some p \<Longrightarrow>
           p \<in> set xs \<and> start p < slotEnd \<and> end' p > slotStart
           \<and> (\<forall>q \<in> set xs. overlaps slotStart slotEnd q \<longrightarrow> start p \<le> start q)"
proof -
  show "findProgrammeForSlot (loadEpg parseFromString localOffset channels fetched) channel
             slotStart slotEnd
           = Inr (find (overlaps slotStart slotEnd) xs)"
    using assms by (simp add: findProgrammeForSlot_def)
  show "find (overlaps slotStart slotEnd) xs = None
           \<longleftrightarrow> \<not> (\<exists>q \<in> set xs. overlaps slotStart slotEnd q)"
    by (auto simp: find_None_iff)
  have sorted: "sorted (map start xs)"
    using candidateList_in_tables [OF assms] loadEpg_tableLists [of xs] by auto
  assume f: "find (overlaps slotStart slotEnd) xs = Some p"
  then have "p \<in> set xs" and "overlaps slotStart slotEnd p"
    by (auto simp: find_Some_iff)
  then show "p \<in> set xs \<and> start p < slotEnd \<and> end' p > slotStart
           \<and> (\<forall>q \<in> set xs. overlaps slotStart slotEnd q \<longrightarrow> start p \<le> start q)"
    using find_first_in_sorted [OF sorted f] by (simp add: overlaps_def)
qed

text \<open>
  C3 fails on the code. For a channel named \<open>constructor\<close> the lookup by name reads the
  inherited member of the table, which is truthy and no array, and the loop over it throws,
  where the claim has the matcher return none; a channel whose \<open>tvgId\<close> is \<open>constructor\<close>
  does the same in the first lookup.
\<close>

theorem inherited_member_makes_matcher_throw:
  "findProgrammeForSlot
     (loadEpg (\<lambda>xml. newsFeed) 0 [\<lparr>tvgId = None, name = ''constructor''\<rparr>] (Some []))
     \<lparr>tvgId = None, name = ''constructor''\<rparr> 1704151800000 1704153600000
   = Inl TypeError
   \<and> findProgrammeForSlot
     (loadEpg (\<lambda>xml. newsFeed) 0 [\<lparr>tvgId = Some ''constructor'', name = ''News channel''\<rparr>]
        (Some []))
     \<lparr>tvgId = Some ''constructor'', name = ''News channel''\<rparr> 1704151800000 1704153600000
   = Inl TypeError"
  by code_simp

text \<open>
  The tiers of the lookup. Unless the lookup ends on an inherited member, the candidate
  list is chosen by the first tier that yields a non-empty list, without merging: the list
  of \<open>epgScheduleByTvgId\<close> at a non-empty \<open>tvgId\<close>, else the list of
  \<open>epgScheduleNormalized\<close> at the lower-cased name, else the list of \<open>epgSchedule\<close> at the
  name as it is, else the empty list. In particular a non-empty \<open>tvgId\<close> with entries
  decides the result, whatever the name matches.
\<close>

lemma candidate_list_by_first_tier:
  assumes "st = loadEpg parseFromString localOffset channels fetched"
    and "\<not> hitsInherited st channel"
  shows "candidateList st channel = Value (tieredCandidates st channel)
         \<and> findProgrammeForSlot st channel slotStart slotEnd
           = Inr (find (overlaps slotStart slotEnd) (tieredCandidates st channel))
         \<and> (\<forall>t list. tvgId channel = Some t \<and> t \<noteq> []
                 \<and> getProp (epgScheduleByTvgId st) t = Value list
               \<longrightarrow> findProgrammeForSlot st channel slotStart slotEnd
                     = Inr (find (overlaps slotStart slotEnd) list))"
proof -
  have ne: "v \<in> tableLists st \<Longrightarrow> v \<noteq> []" for v
    using loadEpg_tableLists assms(1) by blast
  have byId: "getProp (epgScheduleByTvgId st) k = Value v \<Longrightarrow> v \<noteq> []" for k v
    using tier_lists_in_tables(1) ne by blast
  have exact: "getProp (epgSchedule st) k = Value v \<Longrightarrow> v \<noteq> []" for k v
    using tier_lists_in_tables(2) ne by blast
  have byName: "getNormalized (epgScheduleNormalized st) k = Value v \<Longrightarrow> v \<noteq> []" for k v
    using tier_lists_in_tables(3) ne by blast
  obtain xs where xs: "candidateList st channel = Value xs"
    using assms(2)
    by (cases "candidateList st channel")
      (auto simp: hitsInherited_def candidateList_def Let_def split: if_splits)
  have tiers: "xs = tieredCandidates st channel"
  proof (cases "tvgId channel")
    case None
    show ?thesis
    proof (cases "getNormalized (epgScheduleNormalized st) (toLowerCase (name channel))")
      case Undefined
      with None xs show ?thesis
        by (cases "getProp (epgSchedule st) (name channel)")
          (auto simp: candidateList_def tieredCandidates_def listAt_def Let_def)
    next
      case (Value v)
      with None xs byName [OF Value] show ?thesis
        by (auto simp: candidateList_def tieredCandidates_def listAt_def Let_def)
    next
      case (Builtin b)
      with None xs show ?thesis by (simp add: candidateList_def Let_def)
    qed
  next
    case (Some t)
    show ?thesis
    proof (cases "t = [] \<or> getProp (epgScheduleByTvgId st) t = Undefined")
      case True
      then have skip: "(if t = [] then Undefined else getProp (epgScheduleByTvgId st) t) = Undefined"
        and skip': "(if t = [] then [] else listAt (getProp (epgScheduleByTvgId st) t)) = []"
        by (auto simp: listAt_def)
      show ?thesis
      proof (cases "getNormalized (epgScheduleNormalized st) (toLowerCase (name channel))")
        case Undefined
        with Some xs skip skip' show ?thesis
          by (cases "getProp (epgSchedule st) (name channel)")
            (auto simp: candidateList_def tieredCandidates_def listAt_def Let_def)
      next
        case (Value v)
        with Some xs skip skip' byName [OF Value] show ?thesis
          by (auto simp: candidateList_def tieredCandidates_def listAt_def Let_def)
      next
        case (Builtin b)
        with Some xs skip show ?thesis by (simp add: candidateList_def Let_def)
      qed
    next
      case False
      then have t: "t \<noteq> []" and d: "getProp (epgScheduleByTvgId st) t \<noteq> Undefined" by auto
      show ?thesis
      proof (cases "getProp (epgScheduleByTvgId st) t")
        case Undefined
        with d show ?thesis by simp
      next
        case (Value v)
        with Some xs t byId [OF Value] show ?thesis
          by (auto simp: candidateList_def tieredCandidates_def listAt_def Let_def)
      next
        case (Builtin b)
        with Some xs t show ?thesis by (simp add: candidateList_def Let_def)
      qed
    qed
  qed
  have first: "findProgrammeForSlot st channel slotStart slotEnd
           = Inr (find (overlaps slotStart slotEnd) (tieredCandidates st channel))"
    using xs tiers by (simp add: findProgrammeForSlot_def)
  have "findProgrammeForSlot st channel slotStart slotEnd
          = Inr (find (overlaps slotStart slotEnd) list)"
    if "tvgId channel = Some t" "t \<noteq> []" "getProp (epgScheduleByTvgId st) t = Value list"
    for t list
    using that by (simp add: findProgrammeForSlot_def candidateList_def)
  with xs tiers first show ?thesis by blast
qed

section \<open>Properties of the presence message\<close>

text \<open>
  C10 fails on the code. The playlist channel \<open>News Channel\<close> matches the feed channel
  \<open>News channel\<close> through the table of lower-cased names, and the matcher finds its
  programme; the presence test reads the table of exact names only and reports that the
  channel has no EPG data at all.
\<close>

theorem presence_test_misses_matched_channel:
  "findProgrammeForSlot
     (loadEpg (\<lambda>xml. newsFeed) 0 [\<lparr>tvgId = None, name = ''News Channel''\<rparr>] (Some []))
     \<lparr>tvgId = None, name = ''News Channel''\<rparr> 1704151800000 1704153600000
     = Inr (Some newsProgramme)
   \<and> descriptionText
       (loadEpg (\<lambda>xml. newsFeed) 0 [\<lparr>tvgId = None, name = ''News Channel''\<rparr>] (Some []))
       \<lparr>tvgId = None, name = ''News Channel''\<rparr> = ''No EPG data available''"
  by code_simp

section \<open>Properties of the name buckets\<close>

lemma pushProgramme_lookup:
  assumes "pushProgramme obj k x = Inr obj'"
  shows "\<exists>xs. map_of obj' k = Some xs \<and> x \<in> set xs"
  using assms
  by (auto simp: pushProgramme_def getProp_def update_conv split: option.splits if_splits)

lemma pushProgramme_keeps:
  assumes "pushProgramme obj k x = Inr obj'" and "map_of obj k' = Some ys"
  shows "\<exists>zs. map_of obj' k' = Some zs \<and> set ys \<subseteq> set zs"
  using assms
  by (auto simp: pushProgramme_def getProp_def update_conv split: option.splits if_splits)

lemma addProgramme_keeps:
  assumes "addProgramme localOffset tables acc p = Inr acc'"
    and "map_of (fst acc) k = Some ys"
  shows "\<exists>zs. map_of (fst acc') k = Some zs \<and> set ys \<subseteq> set zs"
proof (cases "parseTimeStr localOffset (orEmpty (pn_start p)) = None
           \<or> parseTimeStr localOffset (orEmpty (pn_stop p)) = None")
  case True
  with assms addProgramme_invalid [OF True, of tables acc] show ?thesis by simp
next
  case False
  then obtain st en where
    "parseTimeStr localOffset (orEmpty (pn_start p)) = Some st"
    "parseTimeStr localOffset (orEmpty (pn_stop p)) = Some en"
    by auto
  from addProgramme_valid [OF assms(1) this] obtain dn x where
    "pushProgramme (fst acc) dn x = Inr (fst acc')"
    by blast
  from pushProgramme_keeps [OF this assms(2)] show ?thesis .
qed

lemma addProgrammes_keeps:
  assumes "addProgrammes localOffset tables acc ps = Inr acc'"
    and "map_of (fst acc) k = Some ys"
  shows "\<exists>zs. map_of (fst acc') k = Some zs \<and> set ys \<subseteq> set zs"
  using assms
proof (induction ps arbitrary: acc ys)
  case Nil
  then show ?case by simp
next
  case (Cons p ps)
  from Cons.prems(1) obtain mid where
    m: "addProgramme localOffset tables acc p = Inr mid"
    and rest: "addProgrammes localOffset tables mid ps = Inr acc'"
    by (auto split: sum.splits)
  from addProgramme_keeps [OF m Cons.prems(2)] obtain ms where
    ms: "map_of (fst mid) k = Some ms" "set ys \<subseteq> set ms"
    by blast
  from Cons.IH [OF rest ms(1)] ms(2) show ?case by blast
qed

lemma addProgrammes_bucket:
  assumes "addProgrammes localOffset tables acc ps = Inr acc'"
    and "p \<in> set ps"
    and "parseTimeStr localOffset (orEmpty (pn_start p)) = Some st"
    and "parseTimeStr localOffset (orEmpty (pn_stop p)) = Some en"
  shows "\<exists>dn xs. displayNameKey (fst tables) (pn_channel p) = Some dn
           \<and> map_of (fst acc') dn = Some xs
           \<and> mkProgramme (pn_info p) st en (iconOf (snd tables) (pn_channel p)) \<in> set xs"
  using assms(1,2)
proof (induction ps arbitrary: acc)
  case Nil
  then show ?case by simp
next
  case (Cons a ps)
  from Cons.prems(1) obtain mid where
    m: "addProgramme localOffset tables acc a = Inr mid"
    and rest: "addProgrammes localOffset tables mid ps = Inr acc'"
    by (auto split: sum.splits)
  show ?case
  proof (cases "p = a")
    case True
    let ?x = "mkProgramme (pn_info p) st en (iconOf (snd tables) (pn_channel p))"
    from addProgramme_valid [OF m [folded True] assms(3,4)] obtain dn where
      dn: "displayNameKey (fst tables) (pn_channel p) = Some dn"
      and push: "pushProgramme (fst acc) dn ?x = Inr (fst mid)"
      by blast
    from pushProgramme_lookup [OF push] obtain ms where
      ms: "map_of (fst mid) dn = Some ms" "?x \<in> set ms"
      by blast
    from addProgrammes_keeps [OF rest ms(1)] ms(2) dn show ?thesis by blast
  next
    case False
    with Cons.prems(2) have "p \<in> set ps" by simp
    from Cons.IH [OF rest this] show ?thesis .
  qed
qed

lemma setNormalized_own_other:
  "k' \<noteq> k \<Longrightarrow> map_of (own (setNormalized acc k' v)) k = map_of (own acc) k"
  by (simp add: setNormalized_def update_conv)

lemma setNormalized_own_same:
  "k \<noteq> ''__proto__'' \<Longrightarrow> map_of (own (setNormalized acc k v)) k = Some v"
  by (simp add: setNormalized_def update_conv)

lemma foldl_setNormalized_own:
  assumes "k \<noteq> ''__proto__''"
    and "\<forall>e \<in> set es. toLowerCase (fst e) = k \<longrightarrow> snd e = v"
  shows "map_of (own (foldl (\<lambda>acc e. setNormalized acc (toLowerCase (fst e)) (snd e)) acc es)) k
           = (if \<exists>e \<in> set es. toLowerCase (fst e) = k then Some v else map_of (own acc) k)"
  using assms(2)
proof (induction es arbitrary: acc)
  case Nil
  then show ?case by simp
next
  case (Cons e es)
  let ?acc = "setNormalized acc (toLowerCase (fst e)) (snd e)"
  have ih: "map_of (own (foldl (\<lambda>acc e. setNormalized acc (toLowerCase (fst e)) (snd e)) ?acc es)) k
           = (if \<exists>e \<in> set es. toLowerCase (fst e) = k then Some v else map_of (own ?acc) k)"
    using Cons by simp
  show ?case
  proof (cases "toLowerCase (fst e) = k")
    case True
    then have "snd e = v" using Cons.prems by simp
    with True assms(1) have "map_of (own ?acc) k = Some v"
      using setNormalized_own_same [of k acc v] by simp
    with ih True show ?thesis by simp
  next
    case False
    then have "map_of (own ?acc) k = map_of (own acc) k"
      by (rule setNormalized_own_other)
    with ih False show ?thesis by simp
  qed
qed

lemma update_entries: "set (AList.update k v obj) \<subseteq> insert (k, v) (set obj)"
  by (induction obj) auto

lemma foldl_setNormalized_entries:
  assumes "\<forall>b \<in> set (own acc). \<exists>n. (n, snd b) \<in> S \<and> toLowerCase n = fst b"
    and "set es \<subseteq> S"
  shows "\<forall>b \<in> set (own (foldl (\<lambda>acc e. setNormalized acc (toLowerCase (fst e)) (snd e)) acc es)).
           \<exists>n. (n, snd b) \<in> S \<and> toLowerCase n = fst b"
  using assms
proof (induction es arbitrary: acc)
  case Nil
  then show ?case by simp
next
  case (Cons e es)
  let ?acc = "setNormalized acc (toLowerCase (fst e)) (snd e)"
  have e: "(fst e, snd e) \<in> S" using Cons.prems(2) by simp
  have sub: "set (own ?acc) \<subseteq> insert (toLowerCase (fst e), snd e) (set (own acc))"
    using update_entries [of "toLowerCase (fst e)" "snd e" "own acc"]
    by (auto simp: setNormalized_def)
  have "\<forall>b \<in> set (own ?acc). \<exists>n. (n, snd b) \<in> S \<and> toLowerCase n = fst b"
  proof
    fix b
    assume "b \<in> set (own ?acc)"
    with sub have "b = (toLowerCase (fst e), snd e) \<or> b \<in> set (own acc)" by blast
    then show "\<exists>n. (n, snd b) \<in> S \<and> toLowerCase n = fst b"
    proof
      assume "b = (toLowerCase (fst e), snd e)"
      with e show ?thesis by (intro exI [of _ "fst e"]) simp
    next
      assume "b \<in> set (own acc)"
      with Cons.prems(1) show ?thesis by blast
    qed
  qed
  moreover have "set es \<subseteq> S" using Cons.prems(2) by simp
  ultimately show ?case using Cons.IH [of ?acc] by simp
qed

lemma getNormalized_own:
  "map_of (own obj) k = Some v \<Longrightarrow> getNormalized obj k = Value v"
  by (simp add: getNormalized_def)

text \<open>
  The table of lower-cased names after the assignments of \<open>loadEpg\<close>: at a key that some
  display name lower-cases to, it reads the list of the last such name in the order of
  \<open>Object.keys\<close>. (At the key \<open>__proto__\<close> the list is the installed prototype.)
\<close>

lemma foldl_setNormalized_last:
  assumes "k \<noteq> ''__proto__''"
  shows "map_of (own (foldl (\<lambda>acc e. setNormalized acc (toLowerCase (fst e)) (snd e)) acc es)) k
           = (if filter (\<lambda>e. toLowerCase (fst e) = k) es = [] then map_of (own acc) k
              else Some (snd (last (filter (\<lambda>e. toLowerCase (fst e) = k) es))))"
proof (induction es rule: rev_induct)
  case Nil
  then show ?case by simp
next
  case (snoc e es)
  show ?case
  proof (cases "toLowerCase (fst e) = k")
    case True
    with assms show ?thesis
      using setNormalized_own_same [of k _ "snd e"] by simp
  next
    case False
    with snoc show ?thesis
      using setNormalized_own_other [of "toLowerCase (fst e)" k] by simp
  qed
qed

lemma foldl_setNormalized_proto:
  "protoArray (foldl (\<lambda>acc e. setNormalized acc (toLowerCase (fst e)) (snd e)) acc es)
     = (if filter (\<lambda>e. toLowerCase (fst e) = ''__proto__'') es = [] then protoArray acc
        else Some (snd (last (filter (\<lambda>e. toLowerCase (fst e) = ''__proto__'') es))))"
  by (induction es rule: rev_induct) (simp_all add: setNormalized_def)

lemma foldl_setNormalized_no_proto_key:
  assumes "map_of (own acc) ''__proto__'' = None"
  shows "map_of (own (foldl (\<lambda>acc e. setNormalized acc (toLowerCase (fst e)) (snd e)) acc es))
           ''__proto__'' = None"
  using assms
  by (induction es rule: rev_induct) (simp_all add: setNormalized_def update_conv')

lemma normalizeSchedule_last_writer:
  assumes "writersOf schedule k \<noteq> []"
  shows "getNormalized (normalizeSchedule schedule) k = Value (snd (last (writersOf schedule k)))"
proof (cases "k = ''__proto__''")
  case False
  have "map_of (own (normalizeSchedule schedule)) k = Some (snd (last (writersOf schedule k)))"
    unfolding normalizeSchedule_def
    using foldl_setNormalized_last [OF False, of "\<lparr>own = [], protoArray = None\<rparr>"
        "Object_entries schedule"] assms
    by (simp add: writersOf_def)
  then show ?thesis by (rule getNormalized_own)
next
  case True
  have o: "map_of (own (normalizeSchedule schedule)) ''__proto__'' = None"
    unfolding normalizeSchedule_def by (rule foldl_setNormalized_no_proto_key) simp
  have p: "protoArray (normalizeSchedule schedule) = Some (snd (last (writersOf schedule k)))"
    unfolding normalizeSchedule_def
    using foldl_setNormalized_proto [of "\<lparr>own = [], protoArray = None\<rparr>"
        "Object_entries schedule"] assms True
    by (simp add: writersOf_def)
  from o p True show ?thesis by (simp add: getNormalized_def)
qed

lemma sharedNameFeed_parsed:
  "parseDocument 0 sharedNameFeed
     = Inr ([(''News'', [newsProgramme, lateProgramme]), (''NEWS'', [morningProgramme])],
            [(''1'', [newsProgramme]), (''2'', [lateProgramme]), (''3'', [morningProgramme])])"
  by code_simp




section \<open>Properties of the lookup order\<close>

text \<open>
  The keys of the table of lower-cased names are their own lower-casing, so the third tier
  of the lookup, which reads the table of exact display names, finds a list exactly where
  the table of lower-cased names read at the name as it is has one, once the second tier
  has found none.
\<close>

lemma lowerChar_idem:
  fixes c :: char
  defines "f \<equiv> (\<lambda>c. let n = (of_char c :: nat)
              in if (65 \<le> n \<and> n \<le> 90) \<or> (192 \<le> n \<and> n \<le> 222 \<and> n \<noteq> 215)
                 then char_of (n + 32) else c)"
  shows "f (f c) = f c"
proof -
  define n where "n = (of_char c :: nat)"
  show ?thesis
  proof (cases "(65 \<le> n \<and> n \<le> 90) \<or> (192 \<le> n \<and> n \<le> 222 \<and> n \<noteq> 215)")
    case True
    then have fc: "f c = char_of (n + 32)" by (simp add: f_def n_def Let_def)
    have m: "(of_char (char_of (n + 32) :: char) :: nat) = n + 32"
      using True by auto
    have "f (char_of (n + 32)) = char_of (n + 32)"
      unfolding f_def Let_def m using True by auto
    with fc show ?thesis by simp
  next
    case False
    then have "f c = c" by (auto simp: f_def n_def Let_def)
    then show ?thesis by simp
  qed
qed

lemma toLowerCase_idem: "toLowerCase (toLowerCase s) = toLowerCase s"
  unfolding toLowerCase_def map_map comp_def
  by (rule map_cong [OF refl]) (rule lowerChar_idem)

lemma normalizeSchedule_key_lower:
  assumes "getNormalized (normalizeSchedule schedule) k = Value v"
  shows "toLowerCase k = k"
proof (cases "map_of (own (normalizeSchedule schedule)) k")
  case (Some w)
  then have "(k, w) \<in> set (own (normalizeSchedule schedule))" by (rule map_of_SomeD)
  moreover have "\<forall>b \<in> set (own (normalizeSchedule schedule)).
             \<exists>n. (n, snd b) \<in> set schedule \<and> toLowerCase n = fst b"
    unfolding normalizeSchedule_def
    by (rule foldl_setNormalized_entries) simp_all
  ultimately obtain n where "toLowerCase n = k" by force
  then show ?thesis using toLowerCase_idem [of n] by simp
next
  case None
  with assms have "k = ''__proto__''"
    by (auto simp: getNormalized_def split: option.splits if_splits)
  then show ?thesis by (simp add: toLowerCase_def)
qed

lemma third_tier_agrees:
  assumes ne: "\<forall>e \<in> set schedule. snd e \<noteq> []"
    and byName: "listAt (getNormalized (normalizeSchedule schedule) (toLowerCase nm)) = []"
  shows "listAt (getProp schedule nm) = listAt (getNormalized (normalizeSchedule schedule) nm)"
proof -
  have none: "map_of schedule nm = None"
  proof (rule ccontr)
    assume "map_of schedule nm \<noteq> None"
    then obtain xs where "map_of schedule nm = Some xs" by blast
    then have "(nm, xs) \<in> set schedule" by (rule map_of_SomeD)
    then have w: "writersOf schedule (toLowerCase nm) \<noteq> []"
      by (force simp: writersOf_def filter_empty_conv)
    then have "last (writersOf schedule (toLowerCase nm)) \<in> set (writersOf schedule (toLowerCase nm))"
      by (rule last_in_set)
    then have "last (writersOf schedule (toLowerCase nm)) \<in> set schedule"
      by (simp add: writersOf_def)
    with ne have "snd (last (writersOf schedule (toLowerCase nm))) \<noteq> []" by blast
    with normalizeSchedule_last_writer [OF w] byName show False by (simp add: listAt_def)
  qed
  then have l: "listAt (getProp schedule nm) = []"
    by (simp add: getProp_def listAt_def)
  have "listAt (getNormalized (normalizeSchedule schedule) nm) = []"
  proof (cases "getNormalized (normalizeSchedule schedule) nm")
    case (Value v)
    then have "toLowerCase nm = nm" by (rule normalizeSchedule_key_lower)
    with byName show ?thesis by simp
  qed (simp_all add: listAt_def)
  with l show ?thesis by simp
qed

lemma loadEpg_normalized:
  "epgScheduleNormalized (loadEpg parseFromString localOffset channels fetched)
     = normalizeSchedule (epgSchedule (loadEpg parseFromString localOffset channels fetched))"
proof (cases rule: loadEpg_cases [of parseFromString localOffset channels fetched])
  case reset
  then show ?thesis by (simp add: emptyState_def normalizeSchedule_def Object_entries_def)
next
  case (parsed xml schedule scheduleByTvgId)
  then show ?thesis by simp
qed

text \<open>
  For a channel whose \<open>tvgId\<close> is missing or a non-empty string and whose lookup does not
  end on an inherited member, the candidate list of the code is the candidate list of the
  lookup order as the specification words it.
\<close>

lemma tiers_as_specified:
  assumes "st = loadEpg parseFromString localOffset channels fetched"
    and "tvgId channel \<noteq> Some []"
  shows "tieredCandidates st channel = specCandidates st channel"
proof -
  have n: "epgScheduleNormalized st = normalizeSchedule (epgSchedule st)"
    unfolding assms(1) by (rule loadEpg_normalized)
  have ne: "\<forall>e \<in> set (epgSchedule st). snd e \<noteq> []"
  proof
    fix e assume "e \<in> set (epgSchedule st)"
    then have "snd e \<in> tableLists st" by (simp add: tableLists_def)
    then show "snd e \<noteq> []" using loadEpg_tableLists assms(1) by blast
  qed
  have third: "listAt (getProp (epgSchedule st) (name channel))
      = listAt (getNormalized (epgScheduleNormalized st) (name channel))"
    if "listAt (getNormalized (epgScheduleNormalized st) (toLowerCase (name channel))) = []"
    using third_tier_agrees [OF ne] that unfolding n by simp
  show ?thesis
  proof (cases "tvgId channel")
    case None
    with third show ?thesis by (simp add: tieredCandidates_def specCandidates_def Let_def)
  next
    case (Some t)
    with assms(2) have "t \<noteq> []" by simp
    with Some third show ?thesis by (simp add: tieredCandidates_def specCandidates_def Let_def)
  qed
qed

lemma candidate_list_as_specified:
  assumes "st = loadEpg parseFromString localOffset channels fetched"
    and "\<not> hitsInherited st channel" and "tvgId channel \<noteq> Some []"
  shows "candidateList st channel = Value (specCandidates st channel)
         \<and> findProgrammeForSlot st channel slotStart slotEnd
           = Inr (find (overlaps slotStart slotEnd) (specCandidates st channel))"
  using candidate_list_by_first_tier [OF assms(1,2), of slotStart slotEnd]
    tiers_as_specified [OF assms(1,3)]
  by simp

text \<open>
  C4 fails on the code. For a playlist channel named \<open>toString\<close> no tier holds a list, and
  the lookup order of the claim ends on the empty list; the code takes the inherited member
  \<open>toString\<close> of the table of exact display names, which is truthy and no list, for the
  candidate list. For a channel named \<open>constructor\<close> the same happens in the second tier,
  on the table of lower-cased names.
\<close>

theorem inherited_member_taken_for_candidate_list:
  "candidateList
     (loadEpg (\<lambda>xml. newsFeed) 0 [\<lparr>tvgId = None, name = ''toString''\<rparr>] (Some []))
     \<lparr>tvgId = None, name = ''toString''\<rparr> = Builtin ''toString''
   \<and> specCandidates
     (loadEpg (\<lambda>xml. newsFeed) 0 [\<lparr>tvgId = None, name = ''toString''\<rparr>] (Some []))
     \<lparr>tvgId = None, name = ''toString''\<rparr> = []
   \<and> candidateList
     (loadEpg (\<lambda>xml. newsFeed) 0 [\<lparr>tvgId = None, name = ''constructor''\<rparr>] (Some []))
     \<lparr>tvgId = None, name = ''constructor''\<rparr> = Builtin ''constructor''
   \<and> specCandidates
     (loadEpg (\<lambda>xml. newsFeed) 0 [\<lparr>tvgId = None, name = ''constructor''\<rparr>] (Some []))
     \<lparr>tvgId = None, name = ''constructor''\<rparr> = []"
  by code_simp

section \<open>Properties of the timestamp decoder\<close>

lemma isDigit_not_other:
  assumes "isDigit c"
  shows "\<not> isWhiteSpace c" "c \<noteq> CHR ''-''" "c \<noteq> CHR ''+''" "c \<noteq> CHR ''x''" "c \<noteq> CHR ''X''"
    "c \<noteq> CHR '' ''"
  using assms by (auto simp: isDigit_def isWhiteSpace_def)

lemma digitValue_range: "isDigit c \<Longrightarrow> 0 \<le> digitValue c \<and> digitValue c \<le> 9"
  by (auto simp: isDigit_def digitValue_def)

lemma decimal_snoc: "decimal (s @ [c]) = 10 * decimal s + digitValue c"
  by (simp add: decimal_def)

lemma decimal_range:
  "list_all isDigit s \<Longrightarrow> 0 \<le> decimal s \<and> decimal s < 10 ^ length s"
proof (induction s rule: rev_induct)
  case Nil
  then show ?case by (simp add: decimal_def)
next
  case (snoc c s)
  then have "0 \<le> decimal s \<and> decimal s < 10 ^ length s" and "isDigit c" by simp_all
  with digitValue_range [of c] show ?case
    by (simp add: decimal_snoc)
qed

text \<open>\<open>parseInt\<close> of a non-empty string of digits is its decimal value.\<close>

lemma parseInt_digits:
  assumes "s \<noteq> []" and "list_all isDigit s"
  shows "parseInt s = Some (decimal s)"
proof -
  from assms obtain c cs where s: "s = c # cs" and c: "isDigit c" and cs: "list_all isDigit cs"
    by (cases s) auto
  have white: "dropWhile isWhiteSpace s = s"
    using s isDigit_not_other(1) [OF c] by simp
  have sign: "take (Suc 0) s \<noteq> ''-''" "take (Suc 0) s \<noteq> ''+''"
    using s isDigit_not_other(2,3) [OF c] by simp_all
  have hex: "take 2 s \<noteq> ''0x''" "take 2 s \<noteq> ''0X''"
  proof -
    show "take 2 s \<noteq> ''0x''"
    proof (cases cs)
      case Nil
      with s show ?thesis by simp
    next
      case (Cons d ds)
      with cs have "isDigit d" by simp
      with s Cons isDigit_not_other(4) [of d] show ?thesis by auto
    qed
    show "take 2 s \<noteq> ''0X''"
    proof (cases cs)
      case Nil
      with s show ?thesis by simp
    next
      case (Cons d ds)
      with cs have "isDigit d" by simp
      with s Cons isDigit_not_other(5) [of d] show ?thesis by auto
    qed
  qed
  have all: "takeWhile isDigit s = s"
    using assms(2) by (simp add: list_all_iff)
  show ?thesis
    using assms(1) by (simp add: parseInt_def Let_def white sign hex all)
qed

lemma tzMatch_skip:
  "\<forall>c \<in> set xs. c \<noteq> CHR ''+'' \<and> c \<noteq> CHR ''-'' \<Longrightarrow> tzMatch (xs @ ys) = tzMatch ys"
  by (induction xs) simp_all

lemma tzMatch_digits: "list_all isDigit ds \<Longrightarrow> tzMatch ds = None"
  using tzMatch_skip [of ds "[]"] isDigit_not_other(2,3) by (auto simp: list_all_iff)

lemma tzMatch_offset:
  assumes "list_all isDigit ds" and "sg = CHR ''+'' \<or> sg = CHR ''-''"
    and "length tz = 4" and "list_all isDigit tz"
  shows "tzMatch (ds @ '' '' @ sg # tz) = Some (sg, take 2 tz, drop 2 tz)"
proof -
  have "\<forall>c \<in> set (ds @ '' ''). c \<noteq> CHR ''+'' \<and> c \<noteq> CHR ''-''"
    using assms(1) isDigit_not_other(2,3) by (auto simp: list_all_iff)
  from tzMatch_skip [OF this, of "sg # tz"] assms(2-4) show ?thesis
    by auto
qed

lemma slice_digits:
  assumes "list_all isDigit ds" and "i < j" and "j \<le> length ds"
  shows "slice ds i j \<noteq> []" "list_all isDigit (slice ds i j)" "length (slice ds i j) = j - i"
proof -
  show len: "length (slice ds i j) = j - i"
    using assms(2,3) by (simp add: slice_def)
  with assms(2) show "slice ds i j \<noteq> []" by auto
  show "list_all isDigit (slice ds i j)"
    using assms(1) by (auto simp: slice_def list_all_iff dest: in_set_takeD in_set_dropD)
qed

lemma parseInt_slice:
  assumes "list_all isDigit ds" and "i < j" and "j \<le> length ds"
  shows "parseInt (slice ds i j) = Some (decimal (slice ds i j))"
    and "0 \<le> decimal (slice ds i j)" and "decimal (slice ds i j) < 10 ^ (j - i)"
  using parseInt_digits [OF slice_digits(1,2) [OF assms]]
    decimal_range [OF slice_digits(2) [OF assms]] slice_digits(3) [OF assms]
  by simp_all

lemma monthStart_range:
  assumes "0 \<le> mn" and "mn < 12"
  shows "0 \<le> monthStart mn leap \<and> monthStart mn leap \<le> 335"
proof -
  from assms have "mn = 0 \<or> mn = 1 \<or> mn = 2 \<or> mn = 3 \<or> mn = 4 \<or> mn = 5 \<or> mn = 6
      \<or> mn = 7 \<or> mn = 8 \<or> mn = 9 \<or> mn = 10 \<or> mn = 11"
    by presburger
  then show ?thesis by (auto simp: monthStart_def)
qed

lemma DayFromYear_range:
  assumes "- 1 \<le> y" and "y \<le> 10007"
  shows "- 720000 \<le> DayFromYear y \<and> DayFromYear y \<le> 2940000"
proof -
  define a where "a = (y - 1969) div 4"
  define b where "b = (y - 1901) div 100"
  define c where "c = (y - 1601) div 400"
  have "4 * a \<le> y - 1969" "y - 1969 - 3 \<le> 4 * a"
    "100 * b \<le> y - 1901" "y - 1901 - 99 \<le> 100 * b"
    "400 * c \<le> y - 1601" "y - 1601 - 399 \<le> 400 * c"
    unfolding a_def b_def c_def by linarith+
  with assms have "- 720000 \<le> 365 * y - 719050 + a - b + c
      \<and> 365 * y - 719050 + a - b + c \<le> 2940000"
    by (intro conjI; linarith)
  then show ?thesis by (simp add: DayFromYear_def a_def b_def c_def)
qed

lemma MakeDay_range:
  assumes "0 \<le> y" "y \<le> 9999" "- 1 \<le> m" "m \<le> 98" "0 \<le> d" "d \<le> 99"
  shows "- 721000 \<le> MakeDay y m d \<and> MakeDay y m d \<le> 2941000"
proof -
  have "- 1 \<le> m div 12" "m div 12 \<le> 8" using assms(3,4) by linarith+
  with assms(1,2) have "- 1 \<le> y + m div 12" "y + m div 12 \<le> 10007" by linarith+
  from DayFromYear_range [OF this]
    monthStart_range [of "m mod 12" "InLeapYear (y + m div 12)"] assms(5,6)
  show ?thesis by (simp add: MakeDay_def Let_def)
qed

text \<open>
  The six fields of a timestamp of fourteen digits always give a time value within the
  range of \<open>Date\<close>, with room for the two offsets.
\<close>

lemma utcMillis_range:
  assumes "0 \<le> y" "y \<le> 9999" "- 1 \<le> m" "m \<le> 98" "0 \<le> d" "d \<le> 99"
    and "0 \<le> h" "h \<le> 99" "0 \<le> mi" "mi \<le> 99" "0 \<le> s" "s \<le> 99"
  shows "\<bar>utcMillis y m d h mi s\<bar> \<le> 300000000000000"
proof -
  have "0 \<le> MakeFullYear y" "MakeFullYear y \<le> 9999"
    using assms(1,2) by (auto simp: MakeFullYear_def)
  from MakeDay_range [OF this assms(3-6)]
  have day: "- 721000 \<le> MakeDay (MakeFullYear y) m d" "MakeDay (MakeFullYear y) m d \<le> 2941000"
    by simp_all
  have "\<bar>MakeDay (MakeFullYear y) m d * 86400000\<bar> \<le> 2941000 * 86400000"
    using day by (simp add: abs_le_iff)
  moreover have "0 \<le> MakeTime h mi s 0" "MakeTime h mi s 0 \<le> 400000000"
    using assms(7-12) by (simp_all add: MakeTime_def)
  ultimately show ?thesis
    by (simp add: utcMillis_def MakeDate_def msPerDay_def)
qed

lemma fieldsInstant_range:
  assumes "length ds = 14" and "list_all isDigit ds"
  shows "Date_UTC (parseInt (slice ds 0 4)) (map_option (\<lambda>m. m - 1) (parseInt (slice ds 4 6)))
           (parseInt (slice ds 6 8)) (parseInt (slice ds 8 10)) (parseInt (slice ds 10 12))
           (parseInt (slice ds 12 14)) = Some (fieldsInstant ds)"
    and "\<bar>fieldsInstant ds\<bar> \<le> 300000000000000"
proof -
  note f = parseInt_slice [OF assms(2)]
  have y: "parseInt (slice ds 0 4) = Some (decimal (slice ds 0 4))"
    "0 \<le> decimal (slice ds 0 4)" "decimal (slice ds 0 4) \<le> 9999"
    using f [of 0 4] assms(1) by simp_all
  have m: "parseInt (slice ds 4 6) = Some (decimal (slice ds 4 6))"
    "- 1 \<le> decimal (slice ds 4 6) - 1" "decimal (slice ds 4 6) - 1 \<le> 98"
    using f [of 4 6] assms(1) by simp_all
  have d: "parseInt (slice ds 6 8) = Some (decimal (slice ds 6 8))"
    "0 \<le> decimal (slice ds 6 8)" "decimal (slice ds 6 8) \<le> 99"
    using f [of 6 8] assms(1) by simp_all
  have h: "parseInt (slice ds 8 10) = Some (decimal (slice ds 8 10))"
    "0 \<le> decimal (slice ds 8 10)" "decimal (slice ds 8 10) \<le> 99"
    using f [of 8 10] assms(1) by simp_all
  have mi: "parseInt (slice ds 10 12) = Some (decimal (slice ds 10 12))"
    "0 \<le> decimal (slice ds 10 12)" "decimal (slice ds 10 12) \<le> 99"
    using f [of 10 12] assms(1) by simp_all
  have s: "parseInt (slice ds 12 14) = Some (decimal (slice ds 12 14))"
    "0 \<le> decimal (slice ds 12 14)" "decimal (slice ds 12 14) \<le> 99"
    using f [of 12 14] assms(1) by simp_all
  show r: "\<bar>fieldsInstant ds\<bar> \<le> 300000000000000"
    unfolding fieldsInstant_def
    by (rule utcMillis_range [OF y(2,3) m(2,3) d(2,3) h(2,3) mi(2,3) s(2,3)])
  then show "Date_UTC (parseInt (slice ds 0 4)) (map_option (\<lambda>m. m - 1) (parseInt (slice ds 4 6)))
           (parseInt (slice ds 6 8)) (parseInt (slice ds 8 10)) (parseInt (slice ds 10 12))
           (parseInt (slice ds 12 14)) = Some (fieldsInstant ds)"
    by (simp add: Date_UTC_def y(1) m(1) d(1) h(1) mi(1) s(1) TimeClip_def fieldsInstant_def)
qed

lemma offsetMinutes_range:
  assumes "length tz = 4" and "list_all isDigit tz"
  shows "parseInt (take 2 tz) = Some (decimal (take 2 tz))"
    and "parseInt (drop 2 tz) = Some (decimal (drop 2 tz))"
    and "\<bar>offsetMinutes sg tz\<bar> \<le> 6039"
proof -
  have t: "take 2 tz = slice tz 0 2" and d: "drop 2 tz = slice tz 2 4"
    using assms(1) by (simp_all add: slice_def)
  note f = parseInt_slice [OF assms(2)]
  show "parseInt (take 2 tz) = Some (decimal (take 2 tz))"
    using f(1) [of 0 2] assms(1) t by simp
  show "parseInt (drop 2 tz) = Some (decimal (drop 2 tz))"
    using f(1) [of 2 4] assms(1) d by simp
  have "0 \<le> decimal (take 2 tz)" "decimal (take 2 tz) \<le> 99"
    "0 \<le> decimal (drop 2 tz)" "decimal (drop 2 tz) \<le> 99"
    using f(2,3) [of 0 2] f(2,3) [of 2 4] assms(1) t d by simp_all
  then show "\<bar>offsetMinutes sg tz\<bar> \<le> 6039"
    by (simp add: offsetMinutes_def)
qed

text \<open>The decoder on a well-formed timestamp, with and without an offset.\<close>

lemma parseTimeStr_timestamp:
  assumes "length ds = 14" and "list_all isDigit ds"
    and "sg = CHR ''+'' \<or> sg = CHR ''-''" and "length tz = 4" and "list_all isDigit tz"
    and "\<bar>localOffset\<bar> \<le> 1440"
  shows "parseTimeStr localOffset (ds @ '' '' @ sg # tz)
           = Some (fieldsInstant ds - offsetMinutes sg tz * 60000 + localOffset * 60000)
         \<and> parseTimeStr localOffset ds = Some (fieldsInstant ds + localOffset * 60000)"
proof -
  let ?s = "ds @ '' '' @ sg # tz"
  have digits: "take 14 ?s = ds" "take 14 ds = ds" "?s \<noteq> []" "ds \<noteq> []"
    using assms(1) by auto
  note utc = fieldsInstant_range [OF assms(1,2)]
  note off = offsetMinutes_range [OF assms(4,5)]
  have clip1: "TimeClip (fieldsInstant ds - offsetMinutes sg tz * 60000 + localOffset * 60000)
      = Some (fieldsInstant ds - offsetMinutes sg tz * 60000 + localOffset * 60000)"
  proof -
    have "\<not> 8640000000000000
        < \<bar>fieldsInstant ds - offsetMinutes sg tz * 60000 + localOffset * 60000\<bar>"
      using utc(2) off(3) [of sg] assms(6) by linarith
    then show ?thesis by (simp add: TimeClip_def)
  qed
  have clip2: "TimeClip (fieldsInstant ds + localOffset * 60000)
      = Some (fieldsInstant ds + localOffset * 60000)"
  proof -
    have "\<not> 8640000000000000 < \<bar>fieldsInstant ds + localOffset * 60000\<bar>"
      using utc(2) assms(6) by linarith
    then show ?thesis by (simp add: TimeClip_def)
  qed
  have "parseTimeStr localOffset ?s
           = Some (fieldsInstant ds - offsetMinutes sg tz * 60000 + localOffset * 60000)"
    unfolding parseTimeStr_def Let_def digits(1) tzMatch_offset [OF assms(2-5)] utc(1)
    using digits(3) off(1,2) clip1 assms(3)
    by (auto simp: Date_new_def offsetMinutes_def)
  moreover have "parseTimeStr localOffset ds = Some (fieldsInstant ds + localOffset * 60000)"
    unfolding parseTimeStr_def Let_def digits(2) tzMatch_digits [OF assms(2)] utc(1)
    using digits(4) clip2 by (simp add: Date_new_def)
  ultimately show ?thesis by simp
qed

text \<open>
  For a viewer whose own offset from UTC is zero the decoder gives the absolute instant:
  what \<open>Date.UTC\<close> makes of the six fields, minus the offset of the timestamp, and what
  \<open>Date.UTC\<close> makes of the fields when the timestamp has no offset.
\<close>

lemma parseTimeStr_at_utc:
  assumes "length ds = 14" and "list_all isDigit ds"
    and "sg = CHR ''+'' \<or> sg = CHR ''-''" and "length tz = 4" and "list_all isDigit tz"
  shows "parseTimeStr 0 (ds @ '' '' @ sg # tz)
           = Some (fieldsInstant ds - offsetMinutes sg tz * 60000)
         \<and> parseTimeStr 0 ds = Some (fieldsInstant ds)"
  using parseTimeStr_timestamp [OF assms, of 0] by simp

text \<open>
  C2 fails on the code. The decoder adds the viewer's own offset from UTC,
  \<open>getTimezoneOffset\<close> at the time of parsing, to the instant. For a viewer five hours
  west of Greenwich the timestamp \<open>20240101180000 -0500\<close> decodes to 04:00 UTC of the next
  day, not to the absolute instant 23:00 UTC that subtracting the offset from 18:00 gives,
  and the timestamp \<open>20240101180000\<close> without an offset decodes to 23:00 UTC, not to 18:00
  UTC. The stored instants are compared with absolute slots: the programme that is on the
  air from 23:00 to 24:00 UTC is not found in the slot from 23:30 to 24:00 UTC.
\<close>

theorem viewer_offset_shifts_instant:
  "parseTimeStr 300 ''20240101180000 -0500'' = Some 1704168000000
   \<and> fieldsInstant ''20240101180000'' - offsetMinutes (CHR ''-'') ''0500'' * 60000
       = 1704150000000
   \<and> utcMillis 2024 0 1 18 0 0 - (- 300) * 60000 = 1704150000000
   \<and> parseTimeStr 300 ''20240101180000'' = Some 1704150000000
   \<and> fieldsInstant ''20240101180000'' = 1704132000000
   \<and> findProgrammeForSlot
       (loadEpg (\<lambda>xml. newsFeed) 300 [\<lparr>tvgId = None, name = ''News channel''\<rparr>] (Some []))
       \<lparr>tvgId = None, name = ''News channel''\<rparr> 1704151800000 1704153600000 = Inr None"
  by code_simp

section \<open>Properties of the calendar\<close>

lemma div_step:
  fixes n d :: int
  assumes "1 < d"
  shows "(n + 1) div d = n div d + (if (n + 1) mod d = 0 then 1 else 0)"
proof -
  define r where "r = n mod d"
  define q where "q = n div d"
  have r: "0 \<le> r" "r < d" using assms by (simp_all add: r_def)
  have n: "n = q * d + r" by (simp add: r_def q_def)
  show ?thesis
  proof (cases "r + 1 = d")
    case True
    have "n + 1 = (q + 1) * d" unfolding n using True by (simp add: algebra_simps)
    then have "(n + 1) div d = q + 1" "(n + 1) mod d = 0"
      using assms by simp_all
    then show ?thesis by (simp add: q_def)
  next
    case False
    then have s: "0 \<le> r + 1" "r + 1 < d" "r + 1 \<noteq> 0" using r by simp_all
    have e: "n + 1 = (r + 1) + q * d" unfolding n by simp
    have "((r + 1) + q * d) div d = q" "((r + 1) + q * d) mod d = r + 1"
      using assms s(1,2) by simp_all
    then have "(n + 1) div d = q" "(n + 1) mod d = r + 1"
      unfolding e by simp_all
    with s show ?thesis by (simp add: q_def)
  qed
qed


lemma shifted_mod:
  fixes y :: int
  shows "(y - 1969 + 1) mod 4 = y mod 4" "(y - 1901 + 1) mod 100 = y mod 100"
    "(y - 1601 + 1) mod 400 = y mod 400"
  using mod_mult_self2 [of y 4 "- 492"] mod_mult_self2 [of y 100 "- 19"]
    mod_mult_self2 [of y 400 "- 4"]
  by simp_all

lemma century_divisibility:
  fixes y :: int
  shows "y mod 400 = 0 \<Longrightarrow> y mod 100 = 0" "y mod 100 = 0 \<Longrightarrow> y mod 4 = 0"
proof -
  have d: "(100 :: int) dvd 400" "(4 :: int) dvd 100" by simp_all
  show "y mod 100 = 0" if "y mod 400 = 0"
  proof -
    from that have "400 dvd y" by (simp add: mod_eq_0_iff_dvd)
    with d(1) have "100 dvd y" by (rule dvd_trans)
    then show ?thesis by (simp add: mod_eq_0_iff_dvd)
  qed
  show "y mod 4 = 0" if "y mod 100 = 0"
  proof -
    from that have "100 dvd y" by (simp add: mod_eq_0_iff_dvd)
    with d(2) have "4 dvd y" by (rule dvd_trans)
    then show ?thesis by (simp add: mod_eq_0_iff_dvd)
  qed
qed

lemma DayFromYear_Suc:
  "DayFromYear (y + 1) = DayFromYear y + (if InLeapYear y then 366 else 365)"
proof -
  have a: "(y - 1969 + 1) div 4 = (y - 1969) div 4 + (if y mod 4 = 0 then 1 else 0)"
    using div_step [of 4 "y - 1969"] shifted_mod(1) [of y] by simp
  have b: "(y - 1901 + 1) div 100 = (y - 1901) div 100 + (if y mod 100 = 0 then 1 else 0)"
    using div_step [of 100 "y - 1901"] shifted_mod(2) [of y] by simp
  have c: "(y - 1601 + 1) div 400 = (y - 1601) div 400 + (if y mod 400 = 0 then 1 else 0)"
    using div_step [of 400 "y - 1601"] shifted_mod(3) [of y] by simp
  have r: "y + 1 - 1969 = y - 1969 + 1" "y + 1 - 1901 = y - 1901 + 1"
    "y + 1 - 1601 = y - 1601 + 1" "y + 1 - 1970 = y - 1970 + 1"
    by simp_all
  have e: "DayFromYear (y + 1) = DayFromYear y + 365 + (if y mod 4 = 0 then 1 else 0)
      - (if y mod 100 = 0 then 1 else 0) + (if y mod 400 = 0 then 1 else 0)"
    unfolding DayFromYear_def r a b c by (simp add: algebra_simps)
  consider (common) "y mod 4 \<noteq> 0" | (leap) "y mod 4 = 0" "y mod 100 \<noteq> 0"
    | (century) "y mod 100 = 0" "y mod 400 \<noteq> 0" | (fourth) "y mod 400 = 0"
    by argo
  then show ?thesis
  proof cases
    case common
    with century_divisibility [of y] have "y mod 100 \<noteq> 0" "y mod 400 \<noteq> 0" by argo+
    with common show ?thesis by (simp add: e InLeapYear_def)
  next
    case leap
    with century_divisibility(1) [of y] have "y mod 400 \<noteq> 0" by argo
    with leap show ?thesis by (simp add: e InLeapYear_def)
  next
    case century
    with century_divisibility(2) [of y] have "y mod 4 = 0" by argo
    with century show ?thesis by (simp add: e InLeapYear_def)
  next
    case fourth
    with century_divisibility [of y] have "y mod 100 = 0" "y mod 4 = 0" by argo+
    with fourth show ?thesis by (simp add: e InLeapYear_def)
  qed
qed


lemma DayFromYear_mono: "y \<le> y' \<Longrightarrow> DayFromYear y \<le> DayFromYear y'"
  by (induction y' rule: int_ge_induct) (simp_all add: DayFromYear_Suc)

lemma monthStart_table:
  "monthStart 0 l = 0" "monthStart 1 l = 31" "monthStart 2 l = (if l then 60 else 59)"
  "monthStart 3 l = (if l then 91 else 90)" "monthStart 4 l = (if l then 121 else 120)"
  "monthStart 5 l = (if l then 152 else 151)" "monthStart 6 l = (if l then 182 else 181)"
  "monthStart 7 l = (if l then 213 else 212)" "monthStart 8 l = (if l then 244 else 243)"
  "monthStart 9 l = (if l then 274 else 273)" "monthStart 10 l = (if l then 305 else 304)"
  "monthStart 11 l = (if l then 335 else 334)"
  by (simp_all add: monthStart_def)

lemma month_cases:
  fixes mo :: int
  assumes "1 \<le> mo" and "mo \<le> 12"
  shows "mo = 1 \<or> mo = 2 \<or> mo = 3 \<or> mo = 4 \<or> mo = 5 \<or> mo = 6 \<or> mo = 7 \<or> mo = 8
    \<or> mo = 9 \<or> mo = 10 \<or> mo = 11 \<or> mo = 12"
  using assms by presburger

text \<open>The days before a date within its year.\<close>

lemma dayOfYear_range:
  assumes "1 \<le> mo" "mo \<le> 12" "1 \<le> d" "d \<le> daysInMonth y mo"
  shows "0 \<le> monthStart (mo - 1) (InLeapYear y) + d - 1"
    and "monthStart (mo - 1) (InLeapYear y) + d - 1 < (if InLeapYear y then 366 else 365)"
  using month_cases [OF assms(1,2)] assms(3,4)
  by (auto simp: monthStart_table daysInMonth_def)

lemma dayOfYear_month:
  assumes "1 \<le> mo" "mo \<le> 12" "1 \<le> d" "d \<le> daysInMonth y mo"
    and "1 \<le> mo'" "mo' \<le> 12" "1 \<le> d'" "d' \<le> daysInMonth y mo'"
    and "mo < mo'"
  shows "monthStart (mo - 1) (InLeapYear y) + d < monthStart (mo' - 1) (InLeapYear y) + d'"
proof -
  have next_start: "monthStart (mo - 1) (InLeapYear y) + d \<le> monthStart mo (InLeapYear y)"
    using month_cases [OF assms(1,2)] assms(4,6,9)
    by (auto simp: monthStart_table daysInMonth_def)
  have later: "monthStart mo (InLeapYear y) \<le> monthStart (mo' - 1) (InLeapYear y)"
    using month_cases [OF assms(1,2)] month_cases [OF assms(5,6)] assms(9)
    by (auto simp: monthStart_table)
  from next_start later assms(7) show ?thesis by linarith
qed


lemma MakeTime_range:
  assumes "0 \<le> h" "h < 24" "0 \<le> mi" "mi < 60" "0 \<le> s" "s < 60"
  shows "0 \<le> MakeTime h mi s 0" "MakeTime h mi s 0 < msPerDay"
  using assms by (simp_all add: MakeTime_def msPerDay_def)

lemma MakeTime_inj:
  assumes "0 \<le> h" "h < 24" "0 \<le> mi" "mi < 60" "0 \<le> s" "s < 60"
    and "0 \<le> h'" "h' < 24" "0 \<le> mi'" "mi' < 60" "0 \<le> s'" "s' < 60"
    and "MakeTime h mi s 0 = MakeTime h' mi' s' 0"
  shows "h = h' \<and> mi = mi' \<and> s = s'"
proof -
  from assms(13) have e: "h * 3600000 + mi * 60000 + s * 1000 = h' * 3600000 + mi' * 60000 + s' * 1000"
    by (simp add: MakeTime_def)
  have h: "h = h'"
  proof (rule ccontr)
    assume "h \<noteq> h'"
    then consider "h + 1 \<le> h'" | "h' + 1 \<le> h" by linarith
    then show False using e assms(1-12) by cases linarith+
  qed
  have mi: "mi = mi'"
  proof (rule ccontr)
    assume "mi \<noteq> mi'"
    then consider "mi + 1 \<le> mi'" | "mi' + 1 \<le> mi" by linarith
    then show False using e h assms(1-12) by cases linarith+
  qed
  from e h mi show ?thesis by simp
qed

lemma MakeDate_inj:
  assumes "0 \<le> t" "t < msPerDay" "0 \<le> t'" "t' < msPerDay"
    and "MakeDate day t = MakeDate day' t'"
  shows "day = day' \<and> t = t'"
proof -
  from assms(5) have e: "day * 86400000 + t = day' * 86400000 + t'"
    by (simp add: MakeDate_def msPerDay_def)
  have "day = day'"
  proof (rule ccontr)
    assume "day \<noteq> day'"
    then consider "day + 1 \<le> day'" | "day' + 1 \<le> day" by linarith
    then show False using e assms(1-4) unfolding msPerDay_def by cases linarith+
  qed
  with e show ?thesis by simp
qed

lemma MakeDay_valid:
  assumes "1 \<le> mo" "mo \<le> 12"
  shows "MakeDay y (mo - 1) d = DayFromYear y + monthStart (mo - 1) (InLeapYear y) + d - 1"
proof -
  have "(mo - 1) div 12 = 0" "(mo - 1) mod 12 = mo - 1"
    using assms by simp_all
  then show ?thesis by (simp add: MakeDay_def)
qed

lemma MakeDay_inj:
  assumes "1 \<le> mo" "mo \<le> 12" "1 \<le> d" "d \<le> daysInMonth y mo"
    and "1 \<le> mo'" "mo' \<le> 12" "1 \<le> d'" "d' \<le> daysInMonth y' mo'"
    and "MakeDay y (mo - 1) d = MakeDay y' (mo' - 1) d'"
  shows "y = y' \<and> mo = mo' \<and> d = d'"
proof -
  note r = dayOfYear_range [OF assms(1-4)]
  note r' = dayOfYear_range [OF assms(5-8)]
  from assms(9) have e: "DayFromYear y + monthStart (mo - 1) (InLeapYear y) + d - 1
      = DayFromYear y' + monthStart (mo' - 1) (InLeapYear y') + d' - 1"
    by (simp add: MakeDay_valid assms(1,2,5,6))
  have y: "y = y'"
  proof (rule ccontr)
    assume "y \<noteq> y'"
    then consider "y + 1 \<le> y'" | "y' + 1 \<le> y" by linarith
    then show False
    proof cases
      case 1
      from DayFromYear_mono [OF 1] have "DayFromYear y + (if InLeapYear y then 366 else 365)
          \<le> DayFromYear y'"
        by (simp add: DayFromYear_Suc)
      with r(2) r'(1) e show False by (simp split: if_splits)
    next
      case 2
      from DayFromYear_mono [OF 2] have "DayFromYear y' + (if InLeapYear y' then 366 else 365)
          \<le> DayFromYear y"
        by (simp add: DayFromYear_Suc)
      with r'(2) r(1) e show False by (simp split: if_splits)
    qed
  qed
  with e have e': "monthStart (mo - 1) (InLeapYear y) + d = monthStart (mo' - 1) (InLeapYear y) + d'"
    by simp
  have mo: "mo = mo'"
  proof (rule ccontr)
    assume "mo \<noteq> mo'"
    then consider "mo < mo'" | "mo' < mo" by linarith
    then show False
      using dayOfYear_month [OF assms(1-4) assms(5-8) [folded y]]
        dayOfYear_month [OF assms(5-8) [folded y] assms(1-4)] e'
      by cases simp_all
  qed
  with e' y show ?thesis by simp
qed

text \<open>Calendar-valid fields are determined by their instant.\<close>

lemma civilMillis_inj:
  assumes "validCalendar f" and "validCalendar g" and "civilMillis f = civilMillis g"
  shows "f = g"
proof -
  have tf: "0 \<le> MakeTime (wc_hour f) (wc_minute f) (wc_second f) 0"
    "MakeTime (wc_hour f) (wc_minute f) (wc_second f) 0 < msPerDay"
    using assms(1) MakeTime_range by (simp_all add: validCalendar_def)
  have tg: "0 \<le> MakeTime (wc_hour g) (wc_minute g) (wc_second g) 0"
    "MakeTime (wc_hour g) (wc_minute g) (wc_second g) 0 < msPerDay"
    using assms(2) MakeTime_range by (simp_all add: validCalendar_def)
  from MakeDate_inj [OF tf tg] assms(3)
  have day: "MakeDay (wc_year f) (wc_month f - 1) (wc_day f)
      = MakeDay (wc_year g) (wc_month g - 1) (wc_day g)"
    and time: "MakeTime (wc_hour f) (wc_minute f) (wc_second f) 0
      = MakeTime (wc_hour g) (wc_minute g) (wc_second g) 0"
    by (simp_all add: civilMillis_def)
  have "wc_year f = wc_year g \<and> wc_month f = wc_month g \<and> wc_day f = wc_day g"
    using assms(1,2) by (intro MakeDay_inj [OF _ _ _ _ _ _ _ _ day]) (simp_all add: validCalendar_def)
  moreover have "wc_hour f = wc_hour g \<and> wc_minute f = wc_minute g \<and> wc_second f = wc_second g"
    using assms(1,2)
    by (intro MakeTime_inj [OF _ _ _ _ _ _ _ _ _ _ _ _ time]) (simp_all add: validCalendar_def)
  ultimately show ?thesis by simp
qed


text \<open>
  C5, as amended. For a timestamp with an explicit offset whose fields are valid calendar
  fields with a year from 0100 on, decoded for a viewer whose own offset from UTC is zero,
  the stored instant re-expressed in the offset of the timestamp reads as the original
  fields and as no others.
\<close>

theorem offset_round_trip:
  assumes "length ds = 14" and "list_all isDigit ds"
    and "sg = CHR ''+'' \<or> sg = CHR ''-''" and "length tz = 4" and "list_all isDigit tz"
    and "validCalendar (timestampFields ds)" and "100 \<le> wc_year (timestampFields ds)"
  shows "\<exists>t. parseTimeStr 0 (ds @ '' '' @ sg # tz) = Some t
           \<and> readsAs (offsetMinutes sg tz) t (timestampFields ds)
           \<and> (\<forall>f. readsAs (offsetMinutes sg tz) t f \<longrightarrow> f = timestampFields ds)"
proof -
  let ?t = "fieldsInstant ds - offsetMinutes sg tz * 60000"
  have p: "parseTimeStr 0 (ds @ '' '' @ sg # tz) = Some ?t"
    using parseTimeStr_at_utc [OF assms(1-5)] by simp
  have "MakeFullYear (decimal (slice ds 0 4)) = decimal (slice ds 0 4)"
    using assms(7) by (simp add: MakeFullYear_def timestampFields_def)
  then have c: "civilMillis (timestampFields ds) = fieldsInstant ds"
    by (simp add: civilMillis_def fieldsInstant_def utcMillis_def timestampFields_def)
  have r: "readsAs (offsetMinutes sg tz) ?t (timestampFields ds)"
    using assms(6) c by (simp add: readsAs_def)
  have u: "f = timestampFields ds" if "readsAs (offsetMinutes sg tz) ?t f" for f
  proof -
    from that have "validCalendar f" and "civilMillis f = civilMillis (timestampFields ds)"
      using c by (simp_all add: readsAs_def)
    with assms(6) show ?thesis by (intro civilMillis_inj)
  qed
  from p r u show ?thesis by blast
qed

theorem offset_round_trip_witness:
  "parseTimeStr 0 (''20240101180000'' @ '' '' @ CHR ''-'' # ''0500'') = Some 1704150000000
   \<and> readsAs (- 300) 1704150000000
       \<lparr>wc_year = 2024, wc_month = 1, wc_day = 1, wc_hour = 18, wc_minute = 0, wc_second = 0\<rparr>"
proof -
  have a: "length ''20240101180000'' = 14" "list_all isDigit ''20240101180000''"
    "CHR ''-'' = CHR ''+'' \<or> CHR ''-'' = CHR ''-''" "length ''0500'' = 4"
    "list_all isDigit ''0500''"
    by (simp_all add: isDigit_def)
  have f: "timestampFields ''20240101180000''
      = \<lparr>wc_year = 2024, wc_month = 1, wc_day = 1, wc_hour = 18, wc_minute = 0, wc_second = 0\<rparr>"
    by code_simp
  have v: "validCalendar (timestampFields ''20240101180000'')"
    "100 \<le> wc_year (timestampFields ''20240101180000'')"
    unfolding f by code_simp+
  have p: "parseTimeStr 0 (''20240101180000'' @ '' '' @ CHR ''-'' # ''0500'') = Some 1704150000000"
    by code_simp
  have o: "offsetMinutes (CHR ''-'') ''0500'' = - 300"
    by code_simp
  from offset_round_trip [OF a v] p f o show ?thesis by auto
qed

text \<open>
  C5 as stated fails: the decoder checks no field. The timestamp \<open>20241301000000 +0000\<close>
  with month 13 decodes to a valid instant that reads back as the first of January 2025,
  and the timestamp \<open>00500101000000 +0000\<close> with the year 0050 decodes to a valid instant
  that reads back as the year 1950.
\<close>

theorem round_trip_breaks_outside_calendar:
  "parseTimeStr 0 ''20241301000000 +0000'' = Some 1735689600000
   \<and> timestampFields ''20241301000000''
       = \<lparr>wc_year = 2024, wc_month = 13, wc_day = 1, wc_hour = 0, wc_minute = 0, wc_second = 0\<rparr>
   \<and> \<not> readsAs 0 1735689600000
       \<lparr>wc_year = 2024, wc_month = 13, wc_day = 1, wc_hour = 0, wc_minute = 0, wc_second = 0\<rparr>
   \<and> readsAs 0 1735689600000
       \<lparr>wc_year = 2025, wc_month = 1, wc_day = 1, wc_hour = 0, wc_minute = 0, wc_second = 0\<rparr>
   \<and> parseTimeStr 0 ''00500101000000 +0000'' = Some (- 631152000000)
   \<and> timestampFields ''00500101000000''
       = \<lparr>wc_year = 50, wc_month = 1, wc_day = 1, wc_hour = 0, wc_minute = 0, wc_second = 0\<rparr>
   \<and> \<not> readsAs 0 (- 631152000000)
       \<lparr>wc_year = 50, wc_month = 1, wc_day = 1, wc_hour = 0, wc_minute = 0, wc_second = 0\<rparr>
   \<and> readsAs 0 (- 631152000000)
       \<lparr>wc_year = 1950, wc_month = 1, wc_day = 1, wc_hour = 0, wc_minute = 0, wc_second = 0\<rparr>"
  by code_simp

end
